theory Spec2Isabelle
  imports Main "HOL-Library.Word"
begin

section \<open>Python values, objects and the heap\<close>

text \<open>
  The module \<^verbatim>\<open>isatools/model/v1.py\<close> works on mutable Python objects that refer to
  each other: a process holds lists of materials, a material refers to the material it
  derives from, and the batch creators copy such structures with \<^verbatim>\<open>copy.deepcopy\<close> and
  rewire the copies in place. Object identity and aliasing matter, so objects live in an
  explicit heap: a reference is an index into a list of objects, and allocation appends.

  A value is \<^verbatim>\<open>None\<close>, a text, an integer, a float (its 64 IEEE bits; only its being
  zero is ever inspected) or a reference to a heap object. A heap object is an instance of
  one of the module's classes with its attribute dictionary (in insertion order), or a
  Python list.
\<close>

type_synonym ref = nat

datatype val = VNone | VStr string | VInt int | VFloat "64 word" | VRef ref

datatype cls =
    Comment | Commentable | Investigation | OntologySource | OntologyAnnotation
  | Publication | Person | Study | StudyFactor | Assay | Protocol | ProtocolParameter
  | ProtocolComponent | Source | Characteristic | Sample | Material | Extract
  | LabeledExtract | FactorValue | Process | DataFile | ParameterValue

datatype obj = Inst cls "(string \<times> val) list" | PList "val list"

type_synonym heap = "obj list"

datatype error =
    AttributeError | TypeError | ValidationFailure | DanglingReference | OutOfFuel

text \<open>
  A read returns a value or raises; a command returns a result and the heap it leaves, or
  raises and leaves the heap as it was at the raise.
\<close>

type_synonym 'a result = "(error \<times> heap) + ('a \<times> heap)"

fun final_heap :: "'a result \<Rightarrow> heap" where
  "final_heap (Inl (e, h)) = h"
| "final_heap (Inr (x, h)) = h"

definition lookup :: "heap \<Rightarrow> ref \<Rightarrow> obj option" where
  "lookup h r = (if r < length h then Some (h ! r) else None)"

definition alloc :: "heap \<Rightarrow> obj \<Rightarrow> ref \<times> heap" where
  "alloc h ob = (length h, h @ [ob])"

text \<open>The class hierarchy: each class with its superclasses, most specific first.\<close>

fun mro :: "cls \<Rightarrow> cls list" where
  "mro Comment = [Comment]"
| "mro Commentable = [Commentable]"
| "mro ParameterValue = [ParameterValue]"
| "mro Extract = [Extract, Material, Commentable]"
| "mro LabeledExtract = [LabeledExtract, Extract, Material, Commentable]"
| "mro c = [c, Commentable]"

definition isinstance :: "heap \<Rightarrow> val \<Rightarrow> cls list \<Rightarrow> bool" where
  "isinstance h v cs =
     (case v of
        VRef r \<Rightarrow> (case lookup h r of
                     Some (Inst c attrs) \<Rightarrow> list_ex (\<lambda>d. d \<in> set cs) (mro c)
                   | _ \<Rightarrow> False)
      | _ \<Rightarrow> False)"

definition isinstance_list :: "heap \<Rightarrow> val \<Rightarrow> bool" where
  "isinstance_list h v =
     (case v of
        VRef r \<Rightarrow> (case lookup h r of Some (PList vs) \<Rightarrow> True | _ \<Rightarrow> False)
      | _ \<Rightarrow> False)"

text \<open>
  Truth value testing, as \<^verbatim>\<open>if x\<close> and \<^verbatim>\<open>not x\<close> do it: \<^verbatim>\<open>None\<close>, the empty text, zero
  (of either sign, for a float) and the empty list are false; the classes of the module
  define neither \<^verbatim>\<open>__bool__\<close> nor \<^verbatim>\<open>__len__\<close>, so every instance is true.
\<close>

definition truthy :: "heap \<Rightarrow> val \<Rightarrow> bool" where
  "truthy h v =
     (case v of
        VNone \<Rightarrow> False
      | VStr s \<Rightarrow> s \<noteq> []
      | VInt i \<Rightarrow> i \<noteq> 0
      | VFloat w \<Rightarrow> take_bit 63 w \<noteq> 0
      | VRef r \<Rightarrow> (case lookup h r of Some (PList vs) \<Rightarrow> vs \<noteq> [] | _ \<Rightarrow> True))"

section \<open>Validated properties\<close>

datatype ty = TText | TInt | TFloat | TNone | TList | TInst cls

definition has_type :: "heap \<Rightarrow> val \<Rightarrow> ty \<Rightarrow> bool" where
  "has_type h v t =
     (case t of
        TText \<Rightarrow> (case v of VStr s \<Rightarrow> True | _ \<Rightarrow> False)
      | TInt \<Rightarrow> (case v of VInt i \<Rightarrow> True | _ \<Rightarrow> False)
      | TFloat \<Rightarrow> (case v of VFloat w \<Rightarrow> True | _ \<Rightarrow> False)
      | TNone \<Rightarrow> v = VNone
      | TList \<Rightarrow> isinstance_list h v
      | TInst c \<Rightarrow> isinstance h v [c])"

text \<open>
  Modelled from the spec: the decorator \<^verbatim>\<open>accepts\<close> of \<^verbatim>\<open>isatools/model/utils.py\<close>, which
  is not among the sources. Section 7 of the specification says that a setter raises a
  validation failure when the type of the assigned value is outside the declared accepted
  set, or when a non-empty constraint is violated on a text field.
\<close>

definition accepts :: "ty list \<Rightarrow> bool \<Rightarrow> heap \<Rightarrow> val \<Rightarrow> bool" where
  "accepts types allow_empty h v =
     (list_ex (has_type h v) types \<and> (allow_empty \<or> v \<noteq> VStr []))"

text \<open>
  A property of a class: the private slot its setter writes (with the name mangling of
  Python, \<^verbatim>\<open>self.__value\<close> in class \<^verbatim>\<open>Comment\<close> is the attribute \<^verbatim>\<open>_Comment__value\<close>), the
  slot whose truth value its getter tests before it returns the stored value (if it tests
  one), and the arguments of its \<^verbatim>\<open>accepts\<close> decorator.
\<close>

record property =
  slot :: string
  guard :: "string option"
  accepted :: "ty list"
  allow_empty :: bool

definition plain_property :: "string \<Rightarrow> ty list \<Rightarrow> bool \<Rightarrow> property" where
  "plain_property s ts e = \<lparr>slot = s, guard = None, accepted = ts, allow_empty = e\<rparr>"

definition falsy_to_None_property :: "string \<Rightarrow> ty list \<Rightarrow> property" where
  "falsy_to_None_property s ts = \<lparr>slot = s, guard = Some s, accepted = ts, allow_empty = True\<rparr>"

definition class_property :: "cls \<Rightarrow> string \<Rightarrow> property option" where
  "class_property c a =
     (if c = Comment \<and> a = ''name'' then
        Some (plain_property ''_Comment__name'' [TText, TNone] False)
      else if c = Comment \<and> a = ''value'' then
        Some (falsy_to_None_property ''_Comment__value'' [TText, TInt, TFloat, TNone])
      else if c = Commentable \<and> a = ''comments'' then
        Some (plain_property ''_Commentable__comments'' [TList, TNone] True)
      else if c = OntologySource \<and> a = ''name'' then
        Some (plain_property ''_OntologySource__name'' [TText, TNone] False)
      else if c = OntologySource \<and> a = ''file'' then
        Some (falsy_to_None_property ''_OntologySource__file'' [TText, TNone])
      else if c = OntologySource \<and> a = ''version'' then
        Some (falsy_to_None_property ''_OntologySource__version'' [TText, TNone])
      else if c = OntologySource \<and> a = ''description'' then
        Some (falsy_to_None_property ''_OntologySource__description'' [TText, TNone])
      else if c = OntologyAnnotation \<and> a = ''term'' then
        Some (falsy_to_None_property ''_OntologyAnnotation__term'' [TText, TNone])
      else if c = OntologyAnnotation \<and> a = ''term_source'' then
        Some (plain_property ''_OntologyAnnotation__term_source''
                [TInst OntologySource, TNone] True)
      else if c = OntologyAnnotation \<and> a = ''term_accession'' then
        Some \<lparr>slot = ''_OntologyAnnotation__term_accession'',
              guard = Some ''_OntologyAnnotation__term'',
              accepted = [TText, TNone], allow_empty = True\<rparr>
      else None)"

text \<open>
  Attribute lookup finds a property in the class of the object or, failing that, in its
  superclasses. \<^verbatim>\<open>Publication\<close> declares its properties inside the body of \<^verbatim>\<open>__init__\<close>,
  where they are local names that are dropped when the constructor returns: the class
  itself has none, and inherits \<^verbatim>\<open>comments\<close> from \<^verbatim>\<open>Commentable\<close>.
\<close>

definition find_property :: "cls \<Rightarrow> string \<Rightarrow> property option" where
  "find_property c a =
     (case List.map_filter (\<lambda>d. class_property d a) (mro c) of
        [] \<Rightarrow> None
      | p # ps \<Rightarrow> Some p)"

definition read_slot :: "(string \<times> val) list \<Rightarrow> string \<Rightarrow> error + val" where
  "read_slot attrs s = (case map_of attrs s of None \<Rightarrow> Inl AttributeError | Some v \<Rightarrow> Inr v)"

definition getattr :: "heap \<Rightarrow> val \<Rightarrow> string \<Rightarrow> error + val" where
  "getattr h v a =
     (case v of
        VRef r \<Rightarrow>
          (case lookup h r of
             Some (Inst c attrs) \<Rightarrow>
               (case find_property c a of
                  Some p \<Rightarrow>
                    (case guard p of
                       None \<Rightarrow> read_slot attrs (slot p)
                     | Some g \<Rightarrow>
                         (case read_slot attrs g of
                            Inl e \<Rightarrow> Inl e
                          | Inr t \<Rightarrow> if \<not> truthy h t then Inr VNone
                                     else read_slot attrs (slot p)))
                | None \<Rightarrow> read_slot attrs a)
           | Some (PList vs) \<Rightarrow> Inl AttributeError
           | None \<Rightarrow> Inl DanglingReference)
      | _ \<Rightarrow> Inl AttributeError)"

text \<open>
  Storing into the attribute dictionary: an existing key keeps its place, a new key goes
  to the end.
\<close>

fun store :: "string \<Rightarrow> val \<Rightarrow> (string \<times> val) list \<Rightarrow> (string \<times> val) list" where
  "store k v [] = [(k, v)]"
| "store k v ((k', v') # kvs) = (if k' = k then (k, v) # kvs else (k', v') # store k v kvs)"

definition setattr :: "val \<Rightarrow> string \<Rightarrow> val \<Rightarrow> heap \<Rightarrow> unit result" where
  "setattr target a v h =
     (case target of
        VRef r \<Rightarrow>
          (case lookup h r of
             Some (Inst c attrs) \<Rightarrow>
               (case find_property c a of
                  Some p \<Rightarrow>
                    if accepts (accepted p) (allow_empty p) h v
                    then Inr ((), h[r := Inst c (store (slot p) v attrs)])
                    else Inl (ValidationFailure, h)
                | None \<Rightarrow> Inr ((), h[r := Inst c (store a v attrs)]))
           | Some (PList vs) \<Rightarrow> Inl (AttributeError, h)
           | None \<Rightarrow> Inl (DanglingReference, h))
      | _ \<Rightarrow> Inl (AttributeError, h))"


section \<open>Constructors\<close>

definition bind_result :: "'a result \<Rightarrow> ('a \<Rightarrow> heap \<Rightarrow> 'b result) \<Rightarrow> 'b result" where
  "bind_result m f = (case m of Inl e \<Rightarrow> Inl e | Inr (x, h) \<Rightarrow> f x h)"

text \<open>A run of attribute assignments \<^verbatim>\<open>self.a = v\<close>, in order; the first that raises ends it.\<close>

fun setattrs :: "val \<Rightarrow> (string \<times> val) list \<Rightarrow> heap \<Rightarrow> unit result" where
  "setattrs target [] h = Inr ((), h)"
| "setattrs target ((a, v) # avs) h =
     (case setattr target a v h of
        Inl e \<Rightarrow> Inl e
      | Inr (u, h') \<Rightarrow> setattrs target avs h')"

definition construct :: "cls \<Rightarrow> (string \<times> val) list \<Rightarrow> heap \<Rightarrow> val result" where
  "construct c avs h =
     (case alloc h (Inst c []) of
        (r, h1) \<Rightarrow> bind_result (setattrs (VRef r) avs h1) (\<lambda>u h2. Inr (VRef r, h2)))"

definition Comment_init :: "val \<Rightarrow> val \<Rightarrow> heap \<Rightarrow> val result" where
  "Comment_init name value h = construct Comment [(''name'', name), (''value'', value)] h"

definition OntologyAnnotation_init ::
  "val \<Rightarrow> val \<Rightarrow> val \<Rightarrow> val \<Rightarrow> val \<Rightarrow> heap \<Rightarrow> val result" where
  "OntologyAnnotation_init term term_source term_accession comments ident h =
     construct OntologyAnnotation
       [(''comments'', comments), (''term'', term), (''term_source'', term_source),
        (''term_accession'', term_accession), (''id'', ident)] h"

definition Publication_init ::
  "val \<Rightarrow> val \<Rightarrow> val \<Rightarrow> val \<Rightarrow> val \<Rightarrow> val \<Rightarrow> heap \<Rightarrow> val result" where
  "Publication_init pubmed_id doi author_list title status comments h =
     construct Publication
       [(''comments'', comments), (''pubmed_id'', pubmed_id), (''doi'', doi),
        (''author_list'', author_list), (''title'', title), (''status'', status)] h"


section \<open>The graph builder\<close>

text \<open>
  The directed graph comes from the library \<^verbatim>\<open>networkx\<close>, which is not part of the
  repository. What the builder uses of it is \<^verbatim>\<open>add_edge\<close>: both end points become nodes
  and the edge is recorded once, however often it is added. A node has to be hashable, so
  a Python list as a node raises; instances of the module's classes hash by identity.
  Nodes are compared as values of the model, and \<^verbatim>\<open>None\<close> as an element of \<^verbatim>\<open>inputs\<close> or
  \<^verbatim>\<open>outputs\<close> is a node like any other value (later versions of the library reject it).
\<close>

record digraph =
  nodes :: "val list"
  edges :: "(val \<times> val) list"

definition empty_graph :: digraph where
  "empty_graph = \<lparr>nodes = [], edges = []\<rparr>"

definition add_new :: "'a \<Rightarrow> 'a list \<Rightarrow> 'a list" where
  "add_new x xs = (if x \<in> set xs then xs else xs @ [x])"

definition add_edge :: "heap \<Rightarrow> digraph \<Rightarrow> val \<Rightarrow> val \<Rightarrow> error + digraph" where
  "add_edge h g u v =
     (if isinstance_list h u \<or> isinstance_list h v then Inl TypeError
      else Inr \<lparr>nodes = add_new v (add_new u (nodes g)),
                edges = add_new (u, v) (edges g)\<rparr>)"

definition bind_read :: "error + 'a \<Rightarrow> ('a \<Rightarrow> error + 'b) \<Rightarrow> error + 'b" where
  "bind_read m f = (case m of Inl e \<Rightarrow> Inl e | Inr x \<Rightarrow> f x)"

text \<open>
  The elements a \<^verbatim>\<open>for\<close> statement walks through: those of a list, the characters of a
  text; anything else the model knows is not iterable.
\<close>

definition py_iter :: "heap \<Rightarrow> val \<Rightarrow> error + val list" where
  "py_iter h v =
     (case v of
        VStr s \<Rightarrow> Inr (map (\<lambda>c. VStr [c]) s)
      | VRef r \<Rightarrow> (case lookup h r of
                     Some (PList vs) \<Rightarrow> Inr vs
                   | Some (Inst c attrs) \<Rightarrow> Inl TypeError
                   | None \<Rightarrow> Inl DanglingReference)
      | _ \<Rightarrow> Inl TypeError)"

text \<open>\<^verbatim>\<open>for output in outputs: G.add_edge(process, output)\<close>\<close>

fun add_edges_from :: "heap \<Rightarrow> digraph \<Rightarrow> val \<Rightarrow> val list \<Rightarrow> error + digraph" where
  "add_edges_from h g u [] = Inr g"
| "add_edges_from h g u (v # vs) =
     (case add_edge h g u v of Inl e \<Rightarrow> Inl e | Inr g' \<Rightarrow> add_edges_from h g' u vs)"

text \<open>\<^verbatim>\<open>for input_ in inputs: G.add_edge(input_, process)\<close>\<close>

fun add_edges_to :: "heap \<Rightarrow> digraph \<Rightarrow> val list \<Rightarrow> val \<Rightarrow> error + digraph" where
  "add_edges_to h g [] v = Inr g"
| "add_edges_to h g (u # us) v =
     (case add_edge h g u v of Inl e \<Rightarrow> Inl e | Inr g' \<Rightarrow> add_edges_to h g' us v)"

text \<open>
  The first statement of the loop body. The test
  \<^verbatim>\<open>process.next_process is not None or process.outputs\<close> reads \<^verbatim>\<open>outputs\<close> only when
  \<^verbatim>\<open>next_process\<close> is \<^verbatim>\<open>None\<close>.
\<close>

definition forward_edges :: "heap \<Rightarrow> val \<Rightarrow> digraph \<Rightarrow> error + digraph" where
  "forward_edges h process g =
     bind_read (getattr h process ''next_process'') (\<lambda>next_process.
     bind_read (if next_process \<noteq> VNone then Inr True
                else bind_read (getattr h process ''outputs'') (\<lambda>outputs. Inr (truthy h outputs)))
       (\<lambda>some_target.
          if some_target then
            bind_read (getattr h process ''outputs'') (\<lambda>outputs.
              if truthy h outputs then
                bind_read (py_iter h outputs) (\<lambda>ns.
                  add_edges_from h g process (filter (\<lambda>n. \<not> isinstance h n [DataFile]) ns))
              else add_edge h g process next_process)
          else Inr g))"

text \<open>The second statement of the loop body.\<close>

definition backward_edges :: "heap \<Rightarrow> val \<Rightarrow> digraph \<Rightarrow> error + digraph" where
  "backward_edges h process g =
     bind_read (getattr h process ''inputs'') (\<lambda>inputs.
       if truthy h inputs then
         bind_read (py_iter h inputs) (\<lambda>ns. add_edges_to h g ns process)
       else
         bind_read (getattr h process ''prev_process'') (\<lambda>prev_process.
           if prev_process \<noteq> VNone then add_edge h g prev_process process else Inr g))"

fun build_loop :: "heap \<Rightarrow> digraph \<Rightarrow> val list \<Rightarrow> error + digraph" where
  "build_loop h g [] = Inr g"
| "build_loop h g (process # rest) =
     (case forward_edges h process g of
        Inl e \<Rightarrow> Inl e
      | Inr g1 \<Rightarrow> (case backward_edges h process g1 of
                    Inl e \<Rightarrow> Inl e
                  | Inr g2 \<Rightarrow> build_loop h g2 rest))"

definition build_assay_graph :: "heap \<Rightarrow> val list \<Rightarrow> error + digraph" where
  "build_assay_graph h process_sequence = build_loop h empty_graph process_sequence"


text \<open>
  What one process contributes to the graph, read off the two statements of the loop body:
  the targets of the edges that leave it, and the sources of the edges that enter it.
\<close>

definition forward_targets :: "heap \<Rightarrow> val \<Rightarrow> val set" where
  "forward_targets h process =
     (case getattr h process ''outputs'' of
        Inl e \<Rightarrow> {}
      | Inr outputs \<Rightarrow>
          if truthy h outputs then
            (case py_iter h outputs of
               Inl e \<Rightarrow> {}
             | Inr ns \<Rightarrow> set (filter (\<lambda>n. \<not> isinstance h n [DataFile]) ns))
          else
            (case getattr h process ''next_process'' of
               Inl e \<Rightarrow> {}
             | Inr next_process \<Rightarrow> if next_process \<noteq> VNone then {next_process} else {}))"

definition backward_sources :: "heap \<Rightarrow> val \<Rightarrow> val set" where
  "backward_sources h process =
     (case getattr h process ''inputs'' of
        Inl e \<Rightarrow> {}
      | Inr inputs \<Rightarrow>
          if truthy h inputs then
            (case py_iter h inputs of Inl e \<Rightarrow> {} | Inr ns \<Rightarrow> set ns)
          else
            (case getattr h process ''prev_process'' of
               Inl e \<Rightarrow> {}
             | Inr prev_process \<Rightarrow> if prev_process \<noteq> VNone then {prev_process} else {}))"

text \<open>
  Two small heaps to run the builder on. In the first, process \<^verbatim>\<open>p0\<close> (at 2) has the
  outputs material \<^verbatim>\<open>m\<close> (at 3) and data file \<^verbatim>\<open>f\<close> (at 7), and is linked to process \<^verbatim>\<open>p1\<close>
  (at 6), which has no inputs, through \<^verbatim>\<open>next_process\<close> and \<^verbatim>\<open>prev_process\<close>. In the second,
  \<^verbatim>\<open>p0\<close> has no outputs and \<^verbatim>\<open>p1\<close> has the input \<^verbatim>\<open>m\<close>, with the same links.
\<close>

definition outputs_example_heap :: heap where
  "outputs_example_heap =
     [PList [VRef 3, VRef 7],
      PList [],
      Inst Process [(''_Commentable__comments'', VNone), (''name'', VStr ''p0''),
                    (''inputs'', VRef 1), (''outputs'', VRef 0),
                    (''prev_process'', VNone), (''next_process'', VRef 6)],
      Inst Material [(''_Commentable__comments'', VNone), (''name'', VStr ''m'')],
      PList [],
      PList [],
      Inst Process [(''_Commentable__comments'', VNone), (''name'', VStr ''p1''),
                    (''inputs'', VRef 5), (''outputs'', VRef 4),
                    (''prev_process'', VRef 2), (''next_process'', VNone)],
      Inst DataFile [(''_Commentable__comments'', VNone), (''filename'', VStr ''f'')]]"

definition inputs_example_heap :: heap where
  "inputs_example_heap =
     [PList [],
      PList [],
      Inst Process [(''_Commentable__comments'', VNone), (''name'', VStr ''p0''),
                    (''inputs'', VRef 1), (''outputs'', VRef 0),
                    (''prev_process'', VNone), (''next_process'', VRef 6)],
      Inst Material [(''_Commentable__comments'', VNone), (''name'', VStr ''m'')],
      PList [],
      PList [VRef 3],
      Inst Process [(''_Commentable__comments'', VNone), (''name'', VStr ''p1''),
                    (''inputs'', VRef 5), (''outputs'', VRef 4),
                    (''prev_process'', VRef 2), (''next_process'', VNone)]]"

section \<open>Deep copies\<close>

text \<open>
  \<^verbatim>\<open>copy.deepcopy\<close> of the standard library. A text, a number and \<^verbatim>\<open>None\<close> are returned as
  they are. An object that the memo already holds is answered from the memo, so sharing
  and cycles of the original are kept in the copy. Otherwise a new object is allocated and
  entered into the memo before its parts are copied: for a list the elements in order, for
  an instance the values of its attribute dictionary in order (the instance is rebuilt
  from the class and the copied dictionary, no setter runs).

  The recursion follows references, so it is bounded by fuel; \<^verbatim>\<open>deepcopy\<close> below supplies
  one more unit than the heap has objects, which is enough on every heap without dangling
  references (lemma \<open>deepcopy_succeeds\<close>).
\<close>

type_synonym memo = "ref \<rightharpoonup> ref"

fun copy_all ::
  "(val \<Rightarrow> memo \<Rightarrow> heap \<Rightarrow> (val \<times> memo) result) \<Rightarrow> val list \<Rightarrow> memo \<Rightarrow> heap
     \<Rightarrow> (val list \<times> memo) result" where
  "copy_all f [] m h = Inr (([], m), h)"
| "copy_all f (v # vs) m h =
     (case f v m h of
        Inl e \<Rightarrow> Inl e
      | Inr ((v', m'), h') \<Rightarrow>
          (case copy_all f vs m' h' of
             Inl e \<Rightarrow> Inl e
           | Inr ((vs', m''), h'') \<Rightarrow> Inr ((v' # vs', m''), h'')))"

primrec deepcopy_fuel :: "nat \<Rightarrow> val \<Rightarrow> memo \<Rightarrow> heap \<Rightarrow> (val \<times> memo) result" where
  "deepcopy_fuel 0 = (\<lambda>v m h. Inl (OutOfFuel, h))"
| "deepcopy_fuel (Suc k) = (\<lambda>v m h.
     case v of
       VRef r \<Rightarrow>
         (case m r of
            Some y \<Rightarrow> Inr ((VRef y, m), h)
          | None \<Rightarrow>
              (case lookup h r of
                 None \<Rightarrow> Inl (DanglingReference, h)
               | Some (PList vs) \<Rightarrow>
                   (case alloc h (PList []) of
                      (y, h1) \<Rightarrow>
                        (case copy_all (deepcopy_fuel k) vs (m(r \<mapsto> y)) h1 of
                           Inl e \<Rightarrow> Inl e
                         | Inr ((vs', m'), h') \<Rightarrow> Inr ((VRef y, m'), h'[y := PList vs'])))
               | Some (Inst c attrs) \<Rightarrow>
                   (case alloc h (Inst c []) of
                      (y, h1) \<Rightarrow>
                        (case copy_all (deepcopy_fuel k) (map snd attrs) (m(r \<mapsto> y)) h1 of
                           Inl e \<Rightarrow> Inl e
                         | Inr ((vs', m'), h') \<Rightarrow>
                             Inr ((VRef y, m'), h'[y := Inst c (zip (map fst attrs) vs')])))))
     | _ \<Rightarrow> Inr ((v, m), h))"

definition deepcopy :: "val \<Rightarrow> heap \<Rightarrow> val result" where
  "deepcopy v h =
     (case deepcopy_fuel (Suc (length h)) v Map.empty h of
        Inl e \<Rightarrow> Inl e
      | Inr ((v', m), h') \<Rightarrow> Inr (v', h'))"

section \<open>Texts, loops and list objects\<close>

text \<open>\<^verbatim>\<open>str(x)\<close> for an integer that is not negative: its decimal digits.\<close>

definition digit_char :: "nat \<Rightarrow> char" where
  "digit_char d = ''0123456789'' ! d"

fun str_nat :: "nat \<Rightarrow> string" where
  "str_nat n = (if n < 10 then [digit_char n] else str_nat (n div 10) @ [digit_char (n mod 10)])"

declare str_nat.simps [simp del]

text \<open>The number that a text of decimal digits stands for, to say what \<open>str_nat\<close> gives.\<close>

definition digit_value :: "char \<Rightarrow> nat" where
  "digit_value c = of_char c - 48"

definition decimal_value :: "string \<Rightarrow> nat" where
  "decimal_value s = foldl (\<lambda>a c. 10 * a + digit_value c) 0 s"

fun join_texts :: "string \<Rightarrow> string list \<Rightarrow> string" where
  "join_texts sep [] = []"
| "join_texts sep [s] = s"
| "join_texts sep (s # t # ts) = s @ sep @ join_texts sep (t # ts)"

fun texts :: "val list \<Rightarrow> string list option" where
  "texts [] = Some []"
| "texts (VStr s # vs) = (case texts vs of None \<Rightarrow> None | Some ss \<Rightarrow> Some (s # ss))"
| "texts (v # vs) = None"

text \<open>\<^verbatim>\<open>sep.join(items)\<close> raises a type error unless every item is a text.\<close>

definition py_join :: "string \<Rightarrow> val list \<Rightarrow> error + val" where
  "py_join sep vs =
     (case texts vs of None \<Rightarrow> Inl TypeError | Some ss \<Rightarrow> Inr (VStr (join_texts sep ss)))"

text \<open>A read inside a sequence of commands: it leaves the heap alone.\<close>

definition read :: "error + 'a \<Rightarrow> heap \<Rightarrow> 'a result" where
  "read m h = (case m of Inl e \<Rightarrow> Inl (e, h) | Inr x \<Rightarrow> Inr (x, h))"

text \<open>
  A \<^verbatim>\<open>for\<close> statement over the given elements, with the local variables that the body
  updates as its state. An exception in the body ends the loop. A loop over a list object
  walks the elements that the list holds when the loop is entered (\<open>for_list\<close>). The
  bodies of the loops of this module leave the length of the list they walk as it is, with
  one exception that the model does not follow: a process of a copied list of processes
  whose own \<^verbatim>\<open>inputs\<close> or \<^verbatim>\<open>outputs\<close> is that very list, to which the wiring then appends
  while the list is walked.
\<close>

fun for_each ::
  "('a \<Rightarrow> 's \<Rightarrow> heap \<Rightarrow> 's result) \<Rightarrow> 'a list \<Rightarrow> 's \<Rightarrow> heap \<Rightarrow> 's result" where
  "for_each body [] s h = Inr (s, h)"
| "for_each body (x # xs) s h =
     (case body x s h of
        Inl e \<Rightarrow> Inl e
      | Inr (s', h') \<Rightarrow> for_each body xs s' h')"

definition for_list ::
  "(val \<Rightarrow> 's \<Rightarrow> heap \<Rightarrow> 's result) \<Rightarrow> val \<Rightarrow> 's \<Rightarrow> heap \<Rightarrow> 's result" where
  "for_list body l s h = bind_result (read (py_iter h l) h) (\<lambda>xs h. for_each body xs s h)"

text \<open>
  \<^verbatim>\<open>target.append(x)\<close>: defined for a list object. An instance has no method of that name
  (and no attribute of an instance is callable), the other values have none either.
\<close>

definition list_append :: "val \<Rightarrow> val \<Rightarrow> heap \<Rightarrow> unit result" where
  "list_append target x h =
     (case target of
        VRef r \<Rightarrow>
          (case lookup h r of
             Some (PList vs) \<Rightarrow> Inr ((), h[r := PList (vs @ [x])])
           | Some (Inst c attrs) \<Rightarrow>
               (case getattr h target ''append'' of
                  Inl e \<Rightarrow> Inl (e, h)
                | Inr f \<Rightarrow> Inl (TypeError, h))
           | None \<Rightarrow> Inl (DanglingReference, h))
      | _ \<Rightarrow> Inl (AttributeError, h))"

section \<open>Batch creation of materials\<close>

text \<open>
  \<^verbatim>\<open>
  material_list = list()
  if isinstance(material, (Source, Sample, Material)):
      for x in six.moves.range(n):
          new_obj = deepcopy(material)
          new_obj.name = '-'.join([material.name, str(x)])
          material_list.append(new_obj)
  return material_list
  \<close>
  The list that is returned is local to the call and is modelled by its elements.
\<close>

definition create_material :: "val \<Rightarrow> nat \<Rightarrow> val list \<Rightarrow> heap \<Rightarrow> val list result" where
  "create_material material x material_list h =
     bind_result (deepcopy material h) (\<lambda>new_obj h.
     bind_result (read (getattr h material ''name'') h) (\<lambda>name h.
     bind_result (read (py_join ''-'' [name, VStr (str_nat x)]) h) (\<lambda>new_name h.
     bind_result (setattr new_obj ''name'' new_name h) (\<lambda>u h.
       Inr (material_list @ [new_obj], h)))))"

definition batch_create_materials :: "val \<Rightarrow> int \<Rightarrow> heap \<Rightarrow> val list result" where
  "batch_create_materials material n h =
     (if isinstance h material [Source, Sample, Material]
      then for_each (create_material material) [0..<nat n] [] h
      else Inr ([], h))"

section \<open>Batch creation of assay chains\<close>

text \<open>
  The local variables of \<^verbatim>\<open>batch_create_assays\<close>: the three slots of the sliding window
  and the sequence that is returned. They are set before the loop over the replicas and are
  not reset when a replica begins.
\<close>

record window =
  materialA :: val
  process :: val
  materialB :: val
  process_sequence :: "val list"

definition initial_window :: window where
  "initial_window = \<lparr>materialA = VNone, process = VNone, materialB = VNone, process_sequence = []\<rparr>"

text \<open>
  \<^verbatim>\<open>
  y = 0
  for material in copies:
      material.name = '-'.join([material.name, str(x), str(y)])
      y += 1
  \<close>
\<close>

definition rename_xy :: "nat \<Rightarrow> val \<Rightarrow> nat \<Rightarrow> heap \<Rightarrow> nat result" where
  "rename_xy x material y h =
     bind_result (read (getattr h material ''name'') h) (\<lambda>name h.
     bind_result (read (py_join ''-'' [name, VStr (str_nat x), VStr (str_nat y)]) h) (\<lambda>new_name h.
     bind_result (setattr material ''name'' new_name h) (\<lambda>u h.
       Inr (y + 1, h))))"

definition copy_list :: "nat \<Rightarrow> val \<Rightarrow> heap \<Rightarrow> val result" where
  "copy_list x arg h =
     bind_result (deepcopy arg h) (\<lambda>copies h.
     bind_result (for_list (rename_xy x) copies 0 h) (\<lambda>y h.
       Inr (copies, h)))"

text \<open>
  \<^verbatim>\<open>
  copy = deepcopy(arg)
  copy.name = '-'.join([copy.name, str(x)])
  \<close>
\<close>

definition copy_single :: "nat \<Rightarrow> val \<Rightarrow> heap \<Rightarrow> val result" where
  "copy_single x arg h =
     bind_result (deepcopy arg h) (\<lambda>copy h.
     bind_result (read (getattr h copy ''name'') h) (\<lambda>name h.
     bind_result (read (py_join ''-'' [name, VStr (str_nat x)]) h) (\<lambda>new_name h.
     bind_result (setattr copy ''name'' new_name h) (\<lambda>u h.
       Inr (copy, h)))))"

text \<open>
  The first statement of the loop body, for an argument that is a non-empty list: its
  first element decides which slot the copy of the list fills.
\<close>

definition fill_from_list :: "nat \<Rightarrow> val \<Rightarrow> window \<Rightarrow> heap \<Rightarrow> window result" where
  "fill_from_list x arg w h =
     (if isinstance_list h arg \<and> truthy h arg then
        (case py_iter h arg of
           Inr (first # others) \<Rightarrow>
             if isinstance h first [Sample, Material] then
               if materialA w = VNone then
                 bind_result (copy_list x arg h) (\<lambda>c h. Inr (w\<lparr>materialA := c\<rparr>, h))
               else
                 bind_result (copy_list x arg h) (\<lambda>c h. Inr (w\<lparr>materialB := c\<rparr>, h))
             else if isinstance h first [Process] then
               bind_result (copy_list x arg h) (\<lambda>c h. Inr (w\<lparr>process := c\<rparr>, h))
             else Inr (w, h)
         | _ \<Rightarrow> Inr (w, h))
      else Inr (w, h))"

text \<open>The second statement, for an argument that is a single material or process.\<close>

definition fill_from_single :: "nat \<Rightarrow> val \<Rightarrow> window \<Rightarrow> heap \<Rightarrow> window result" where
  "fill_from_single x arg w h =
     (if isinstance h arg [Sample, Material] then
        if materialA w = VNone then
          bind_result (copy_single x arg h) (\<lambda>c h. Inr (w\<lparr>materialA := c\<rparr>, h))
        else
          bind_result (copy_single x arg h) (\<lambda>c h. Inr (w\<lparr>materialB := c\<rparr>, h))
      else if isinstance h arg [Process] then
        bind_result (copy_single x arg h) (\<lambda>c h. Inr (w\<lparr>process := c\<rparr>, h))
      else Inr (w, h))"

text \<open>
  The wiring of one process \<^verbatim>\<open>p\<close> with the two material slots; the source has the same
  statements for a process of a list and for a single process:
  \<^verbatim>\<open>
  if isinstance(materialA, list):
      p.inputs = materialA
  else:
      p.inputs.append(materialA)
  if isinstance(materialB, list):
      p.outputs = materialB
      for material in materialB:
          material.derives_from = materialA
  else:
      p.outputs.append(materialB)
      materialB.derives_from = materialA
  \<close>
\<close>

definition wire :: "val \<Rightarrow> val \<Rightarrow> val \<Rightarrow> heap \<Rightarrow> unit result" where
  "wire mA mB p h =
     bind_result
       (if isinstance_list h mA then setattr p ''inputs'' mA h
        else bind_result (read (getattr h p ''inputs'') h) (\<lambda>inputs h. list_append inputs mA h))
       (\<lambda>u h.
          if isinstance_list h mB then
            bind_result (setattr p ''outputs'' mB h) (\<lambda>u h.
              for_list (\<lambda>material u h. setattr material ''derives_from'' mA h) mB () h)
          else
            bind_result (read (getattr h p ''outputs'') h) (\<lambda>outputs h.
            bind_result (list_append outputs mB h) (\<lambda>u h.
              setattr mB ''derives_from'' mA h)))"

text \<open>
  The third statement: once the three slots are filled, the process is wired, a single
  process is appended to the result (the branch for a list of processes has no such
  statement), and the window slides.
\<close>

definition complete_triple :: "window \<Rightarrow> heap \<Rightarrow> window result" where
  "complete_triple w h =
     (if materialA w \<noteq> VNone \<and> materialB w \<noteq> VNone \<and> process w \<noteq> VNone then
        bind_result
          (if isinstance_list h (process w) then
             bind_result
               (for_list (\<lambda>p u h. wire (materialA w) (materialB w) p h) (process w) () h)
               (\<lambda>u h. Inr (process_sequence w, h))
           else
             bind_result (wire (materialA w) (materialB w) (process w) h)
               (\<lambda>u h. Inr (process_sequence w @ [process w], h)))
          (\<lambda>ps h. Inr (\<lparr>materialA = materialB w, process = VNone, materialB = VNone,
                         process_sequence = ps\<rparr>, h))
      else Inr (w, h))"

definition assay_step :: "nat \<Rightarrow> val \<Rightarrow> window \<Rightarrow> heap \<Rightarrow> window result" where
  "assay_step x arg w h =
     bind_result (fill_from_list x arg w h) (\<lambda>w h.
     bind_result (fill_from_single x arg w h) (\<lambda>w h.
       complete_triple w h))"

text \<open>
  \<^verbatim>\<open>batch_create_assays(*args, **kwargs)\<close>: \<^verbatim>\<open>n\<close> is the keyword argument of that name if it
  is given, and 1 otherwise.
\<close>

definition batch_create_assays :: "val list \<Rightarrow> int option \<Rightarrow> heap \<Rightarrow> val list result" where
  "batch_create_assays args kwargs_n h =
     (let n = (case kwargs_n of Some k \<Rightarrow> k | None \<Rightarrow> 1) in
      bind_result
        (for_each (\<lambda>x w h. for_each (assay_step x) args w h) [0..<nat n] initial_window h)
        (\<lambda>w h. Inr (process_sequence w, h)))"

text \<open>
  A prototype chain of one sample (at 0), one process (at 3, with its lists of inputs and
  outputs at 1 and 2) and one material (at 4), and two further processes (at 7 and 10)
  to put a list of processes (at 11) between the sample and the material.
\<close>

definition chain_example_heap :: heap where
  "chain_example_heap =
     [Inst Sample [(''_Commentable__comments'', VNone), (''name'', VStr ''sample''),
                   (''derives_from'', VNone)],
      PList [],
      PList [],
      Inst Process [(''_Commentable__comments'', VNone), (''name'', VStr ''process''),
                    (''inputs'', VRef 1), (''outputs'', VRef 2),
                    (''prev_process'', VNone), (''next_process'', VNone)],
      Inst Material [(''_Commentable__comments'', VNone), (''name'', VStr ''material''),
                     (''derives_from'', VNone)],
      PList [],
      PList [],
      Inst Process [(''_Commentable__comments'', VNone), (''name'', VStr ''p1''),
                    (''inputs'', VRef 5), (''outputs'', VRef 6),
                    (''prev_process'', VNone), (''next_process'', VNone)],
      PList [],
      PList [],
      Inst Process [(''_Commentable__comments'', VNone), (''name'', VStr ''p2''),
                    (''inputs'', VRef 8), (''outputs'', VRef 9),
                    (''prev_process'', VNone), (''next_process'', VNone)],
      PList [VRef 7, VRef 10]]"

section \<open>Notions for the frame and isolation properties\<close>

text \<open>
  The values an object holds; a value that is new with respect to a bound \<open>L\<close> (not a
  reference to one of the first \<open>L\<close> objects of the heap); a heap whose objects from \<open>L\<close> on
  hold only such values; and a heap \<open>h'\<close> that extends \<open>h\<close>, leaves the first \<open>L\<close> objects
  as they are and is closed in that way.
\<close>

definition obj_vals :: "obj \<Rightarrow> val list" where
  "obj_vals ob = (case ob of Inst c attrs \<Rightarrow> map snd attrs | PList vs \<Rightarrow> vs)"

definition fresh :: "nat \<Rightarrow> heap \<Rightarrow> val \<Rightarrow> bool" where
  "fresh L h v = (case v of VRef r \<Rightarrow> L \<le> r \<and> r < length h | _ \<Rightarrow> True)"

definition closed_above :: "nat \<Rightarrow> heap \<Rightarrow> bool" where
  "closed_above L h = (\<forall>r. L \<le> r \<and> r < length h \<longrightarrow> list_all (fresh L h) (obj_vals (h ! r)))"

definition good :: "nat \<Rightarrow> heap \<Rightarrow> bool" where
  "good L h = (L \<le> length h \<and> closed_above L h)"

definition ext :: "nat \<Rightarrow> heap \<Rightarrow> heap \<Rightarrow> bool" where
  "ext L h h' = (length h \<le> length h' \<and> (\<forall>r<L. h' ! r = h ! r) \<and> closed_above L h')"

text \<open>
  A command keeps the first \<open>L\<close> objects when the heap it leaves, whether it returns or
  raises, extends the heap it started in; \<open>Q\<close> is what holds of its result when it returns.
\<close>

definition keeps :: "nat \<Rightarrow> heap \<Rightarrow> 'a result \<Rightarrow> ('a \<Rightarrow> heap \<Rightarrow> bool) \<Rightarrow> bool" where
  "keeps L h res Q =
     (ext L h (final_heap res) \<and> (case res of Inl e \<Rightarrow> True | Inr (x, h') \<Rightarrow> Q x h'))"

definition memo_ok :: "nat \<Rightarrow> heap \<Rightarrow> memo \<Rightarrow> bool" where
  "memo_ok L h m = (\<forall>r y. m r = Some y \<longrightarrow> L \<le> y \<and> y < length h)"

text \<open>
  A heap without dangling references, a value that is meaningful in a heap, and the
  objects that can be reached from a value by following references.
\<close>

definition val_ok :: "heap \<Rightarrow> val \<Rightarrow> bool" where
  "val_ok h v = (case v of VRef r \<Rightarrow> r < length h | _ \<Rightarrow> True)"

definition wf_heap :: "heap \<Rightarrow> bool" where
  "wf_heap h = list_all (\<lambda>ob. list_all (val_ok h) (obj_vals ob)) h"

inductive_set reach :: "heap \<Rightarrow> val \<Rightarrow> ref set" for h :: heap and v :: val where
  root: "v = VRef r \<Longrightarrow> r < length h \<Longrightarrow> r \<in> reach h v"
| step: "r \<in> reach h v \<Longrightarrow> VRef q \<in> set (obj_vals (h ! r)) \<Longrightarrow> q < length h \<Longrightarrow> q \<in> reach h v"


text \<open>
  What the copying of a value needs in order to return: the first \<open>L\<close> objects hold only
  references among themselves, the memo knows only such objects, and the fuel exceeds the
  number of those that the memo does not know yet.
\<close>

definition below :: "nat \<Rightarrow> val \<Rightarrow> bool" where
  "below L v = (case v of VRef r \<Rightarrow> r < L | _ \<Rightarrow> True)"

definition copy_ready :: "nat \<Rightarrow> nat \<Rightarrow> memo \<Rightarrow> heap \<Rightarrow> bool" where
  "copy_ready L k m h =
     (good L h \<and> memo_ok L h m
      \<and> (\<forall>r<L. list_all (below L) (obj_vals (h ! r)))
      \<and> dom m \<subseteq> {..<L}
      \<and> card ({..<L} - dom m) < k)"

text \<open>
  A source \<^verbatim>\<open>S\<close> (at 0) with one characteristic (at 2, in the list at 1) whose category is
  an ontology annotation (at 3).
\<close>

definition source_example_heap :: heap where
  "source_example_heap =
     [Inst Source [(''_Commentable__comments'', VNone), (''id'', VStr []),
                   (''name'', VStr ''S''), (''characteristics'', VRef 1)],
      PList [VRef 2],
      Inst Characteristic [(''_Commentable__comments'', VNone), (''category'', VRef 3),
                           (''value'', VStr ''liver''), (''unit'', VNone)],
      Inst OntologyAnnotation
        [(''_Commentable__comments'', VNone), (''_OntologyAnnotation__term'', VStr ''organ''),
         (''_OntologyAnnotation__term_source'', VNone),
         (''_OntologyAnnotation__term_accession'', VNone), (''id'', VStr [])]]"

text \<open>A source constructed with \<^verbatim>\<open>name=None\<close> (at 0) and no characteristics (the list at 1).\<close>

definition unnamed_source_heap :: heap where
  "unnamed_source_heap =
     [Inst Source [(''_Commentable__comments'', VNone), (''id'', VStr []),
                   (''name'', VNone), (''characteristics'', VRef 1)],
      PList []]"

section \<open>Basic facts about the heap and attribute access\<close>

lemma read_slot_store_same: "read_slot (store k v kvs) k = Inr v"
  by (induction kvs) (auto simp: read_slot_def)

lemma read_slot_store_other: "k' \<noteq> k \<Longrightarrow> read_slot (store k v kvs) k' = read_slot kvs k'"
  by (induction kvs) (auto simp: read_slot_def)

lemma lookup_update_same: "r < length h \<Longrightarrow> lookup (h[r := ob]) r = Some ob"
  by (simp add: lookup_def)

lemma lookup_Some_less: "lookup h r = Some ob \<Longrightarrow> r < length h"
  by (auto simp: lookup_def split: if_splits)

lemma lookup_alloc: "lookup (h @ [ob]) (length h) = Some ob"
  by (simp add: lookup_def)

lemma truthy_atomic: "(\<And>r. v \<noteq> VRef r) \<Longrightarrow> truthy h v = truthy h' v"
  by (cases v) (auto simp: truthy_def)

lemma find_property_simps:
  "find_property Comment ''value''
     = Some (falsy_to_None_property ''_Comment__value'' [TText, TInt, TFloat, TNone])"
  "find_property Comment ''name'' = Some (plain_property ''_Comment__name'' [TText, TNone] False)"
  "find_property OntologyAnnotation ''term_accession''
     = Some \<lparr>slot = ''_OntologyAnnotation__term_accession'',
              guard = Some ''_OntologyAnnotation__term'',
              accepted = [TText, TNone], allow_empty = True\<rparr>"
  "find_property Publication ''comments''
     = Some (plain_property ''_Commentable__comments'' [TList, TNone] True)"
  by (simp_all add: find_property_def class_property_def)

lemma find_property_Publication:
  "a \<noteq> ''comments'' \<Longrightarrow> find_property Publication a = None"
  by (simp add: find_property_def class_property_def)

section \<open>The annotation classes\<close>

text \<open>
  Claim C10. The getter of \<^verbatim>\<open>Comment.value\<close> turns every false stored value into \<^verbatim>\<open>None\<close>,
  not only the empty text and \<^verbatim>\<open>None\<close>: whenever a value that the setter accepts and that
  tests false (such as the integer 0 or the float 0.0) is assigned to \<^verbatim>\<open>value\<close> of a comment,
  or a comment is constructed with it, reading \<^verbatim>\<open>value\<close> gives \<^verbatim>\<open>None\<close>.
\<close>

theorem Comment_value_falsy_is_None:
  assumes "accepts [TText, TInt, TFloat, TNone] True h v" and "\<not> truthy h v"
  shows "(lookup h r = Some (Inst Comment attrs) \<longrightarrow>
            getattr (final_heap (setattr (VRef r) ''value'' v h)) (VRef r) ''value'' = Inr VNone)
       \<and> (n \<noteq> [] \<longrightarrow>
            getattr (final_heap (Comment_init (VStr n) v h)) (VRef (length h)) ''value'' = Inr VNone
          \<and> Comment_init (VStr n) v h = Inr (VRef (length h), final_heap (Comment_init (VStr n) v h)))"
proof -
  from assms(1) have nr: "\<And>q. v \<noteq> VRef q"
    by (auto simp: accepts_def has_type_def isinstance_list_def split: val.splits)
  have t: "\<And>h'. \<not> truthy h' v"
    using truthy_atomic[OF nr] assms(2) by blast
  have a: "\<And>h'. accepts [TText, TInt, TFloat, TNone] True h' v"
    using assms(1) nr by (cases v) (auto simp: accepts_def has_type_def)
  have 1: "getattr (final_heap (setattr (VRef r) ''value'' v h)) (VRef r) ''value'' = Inr VNone"
    if l: "lookup h r = Some (Inst Comment attrs)"
  proof -
    from l have r: "r < length h" by (rule lookup_Some_less)
    show ?thesis
      using l a t
      by (simp add: setattr_def getattr_def find_property_simps falsy_to_None_property_def
          lookup_update_same[OF r] read_slot_store_same)
  qed
  have 2: "getattr (final_heap (Comment_init (VStr n) v h)) (VRef (length h)) ''value'' = Inr VNone
          \<and> Comment_init (VStr n) v h = Inr (VRef (length h), final_heap (Comment_init (VStr n) v h))"
    if n: "n \<noteq> []"
    using n a t
    by (simp add: Comment_init_def construct_def alloc_def bind_result_def setattr_def getattr_def
        find_property_simps falsy_to_None_property_def plain_property_def lookup_alloc
        lookup_update_same read_slot_store_same accepts_def has_type_def read_slot_def)
  from 1 2 show ?thesis by blast
qed

theorem Comment_value_falsy_is_None_witness:
  "accepts [TText, TInt, TFloat, TNone] True [] (VInt 0) \<and> \<not> truthy [] (VInt 0)
   \<and> accepts [TText, TInt, TFloat, TNone] True [] (VFloat 0) \<and> \<not> truthy [] (VFloat 0)
   \<and> Comment_init (VStr ''note'') (VInt 0) []
       = Inr (VRef 0, [Inst Comment [(''_Comment__name'', VStr ''note''), (''_Comment__value'', VInt 0)]])
   \<and> getattr (final_heap (Comment_init (VStr ''note'') (VInt 0) [])) (VRef 0) ''value'' = Inr VNone
   \<and> Comment_init (VStr ''note'') (VFloat 0) []
       = Inr (VRef 0, [Inst Comment [(''_Comment__name'', VStr ''note''), (''_Comment__value'', VFloat 0)]])
   \<and> getattr (final_heap (Comment_init (VStr ''note'') (VFloat 0) [])) (VRef 0) ''value'' = Inr VNone"
proof -
  have a: "accepts [TText, TInt, TFloat, TNone] True [] (VInt 0)"
    and b: "\<not> truthy [] (VInt 0)"
    and c: "accepts [TText, TInt, TFloat, TNone] True [] (VFloat 0)"
    and d: "\<not> truthy [] (VFloat 0)"
    by (simp_all add: accepts_def has_type_def truthy_def)
  have e: "Comment_init (VStr ''note'') v []
       = Inr (VRef 0, [Inst Comment [(''_Comment__name'', VStr ''note''), (''_Comment__value'', v)]])"
    if "v = VInt 0 \<or> v = VFloat 0" for v
    using that
    by (auto simp: Comment_init_def construct_def alloc_def bind_result_def setattr_def lookup_def
        find_property_simps falsy_to_None_property_def plain_property_def accepts_def has_type_def)
  show ?thesis
    using Comment_value_falsy_is_None[OF a b, of 0 "[]" "''note''"]
      Comment_value_falsy_is_None[OF c d, of 0 "[]" "''note''"] a b c d e
    by simp
qed

text \<open>
  Claim C8. For an ontology annotation whose term is \<^verbatim>\<open>None\<close> or the empty text, reading
  \<^verbatim>\<open>term_accession\<close> gives \<^verbatim>\<open>None\<close>, also right after a text has been assigned to
  \<^verbatim>\<open>term_accession\<close>; when the term is a non-empty text, the getter gives the stored
  accession.
\<close>

theorem OntologyAnnotation_term_accession_getter:
  assumes "lookup h r = Some (Inst OntologyAnnotation attrs)"
    and "read_slot attrs ''_OntologyAnnotation__term'' = Inr t"
  shows "((t = VNone \<or> t = VStr []) \<longrightarrow>
            getattr h (VRef r) ''term_accession'' = Inr VNone
          \<and> getattr (final_heap (setattr (VRef r) ''term_accession'' (VStr acc) h))
                (VRef r) ''term_accession'' = Inr VNone)
       \<and> ((\<exists>s. t = VStr s \<and> s \<noteq> []) \<longrightarrow>
            getattr h (VRef r) ''term_accession''
              = read_slot attrs ''_OntologyAnnotation__term_accession''
          \<and> getattr (final_heap (setattr (VRef r) ''term_accession'' (VStr acc) h))
                (VRef r) ''term_accession'' = Inr (VStr acc))"
proof -
  from assms(1) have r: "r < length h" by (rule lookup_Some_less)
  have s: "setattr (VRef r) ''term_accession'' (VStr acc) h
           = Inr ((), h[r := Inst OntologyAnnotation
                    (store ''_OntologyAnnotation__term_accession'' (VStr acc) attrs)])"
    using assms(1) by (simp add: setattr_def find_property_simps accepts_def has_type_def)
  have k: "read_slot (store ''_OntologyAnnotation__term_accession'' (VStr acc) attrs)
             ''_OntologyAnnotation__term'' = Inr t"
    using assms(2) by (simp add: read_slot_store_other)
  show ?thesis
    using assms k
    by (auto simp: s getattr_def find_property_simps lookup_update_same[OF r] truthy_def
        read_slot_store_same)
qed

theorem OntologyAnnotation_term_accession_getter_witness:
  "lookup [Inst OntologyAnnotation
             [(''_Commentable__comments'', VNone), (''_OntologyAnnotation__term'', VStr []),
              (''_OntologyAnnotation__term_source'', VNone),
              (''_OntologyAnnotation__term_accession'', VStr ''GO:1''), (''id'', VStr [])]] 0
     = Some (Inst OntologyAnnotation
             [(''_Commentable__comments'', VNone), (''_OntologyAnnotation__term'', VStr []),
              (''_OntologyAnnotation__term_source'', VNone),
              (''_OntologyAnnotation__term_accession'', VStr ''GO:1''), (''id'', VStr [])])
   \<and> read_slot [(''_Commentable__comments'', VNone), (''_OntologyAnnotation__term'', VStr []),
              (''_OntologyAnnotation__term_source'', VNone),
              (''_OntologyAnnotation__term_accession'', VStr ''GO:1''), (''id'', VStr [])]
        ''_OntologyAnnotation__term'' = Inr (VStr [])
   \<and> OntologyAnnotation_init (VStr []) VNone (VStr ''GO:1'') VNone (VStr []) []
     = Inr (VRef 0, [Inst OntologyAnnotation
             [(''_Commentable__comments'', VNone), (''_OntologyAnnotation__term'', VStr []),
              (''_OntologyAnnotation__term_source'', VNone),
              (''_OntologyAnnotation__term_accession'', VStr ''GO:1''), (''id'', VStr [])]])
   \<and> getattr [Inst OntologyAnnotation
             [(''_Commentable__comments'', VNone), (''_OntologyAnnotation__term'', VStr []),
              (''_OntologyAnnotation__term_source'', VNone),
              (''_OntologyAnnotation__term_accession'', VStr ''GO:1''), (''id'', VStr [])]]
        (VRef 0) ''term_accession'' = Inr VNone"
proof -
  have a: "lookup [Inst OntologyAnnotation
             [(''_Commentable__comments'', VNone), (''_OntologyAnnotation__term'', VStr []),
              (''_OntologyAnnotation__term_source'', VNone),
              (''_OntologyAnnotation__term_accession'', VStr ''GO:1''), (''id'', VStr [])]] 0
     = Some (Inst OntologyAnnotation
             [(''_Commentable__comments'', VNone), (''_OntologyAnnotation__term'', VStr []),
              (''_OntologyAnnotation__term_source'', VNone),
              (''_OntologyAnnotation__term_accession'', VStr ''GO:1''), (''id'', VStr [])])"
    by (simp add: lookup_def)
  have b: "read_slot [(''_Commentable__comments'', VNone), (''_OntologyAnnotation__term'', VStr []),
              (''_OntologyAnnotation__term_source'', VNone),
              (''_OntologyAnnotation__term_accession'', VStr ''GO:1''), (''id'', VStr [])]
        ''_OntologyAnnotation__term'' = Inr (VStr [])"
    by (simp add: read_slot_def)
  have c: "OntologyAnnotation_init (VStr []) VNone (VStr ''GO:1'') VNone (VStr []) []
     = Inr (VRef 0, [Inst OntologyAnnotation
             [(''_Commentable__comments'', VNone), (''_OntologyAnnotation__term'', VStr []),
              (''_OntologyAnnotation__term_source'', VNone),
              (''_OntologyAnnotation__term_accession'', VStr ''GO:1''), (''id'', VStr [])]])"
    by (simp add: OntologyAnnotation_init_def construct_def alloc_def bind_result_def setattr_def
        lookup_def find_property_def class_property_def
        falsy_to_None_property_def plain_property_def accepts_def has_type_def)
  show ?thesis
    using OntologyAnnotation_term_accession_getter[OF a b, of "''GO:2''"] a b c by simp
qed

text \<open>
  Claim C9, as amended. \<^verbatim>\<open>Publication\<close> validates none of the attributes it declares
  itself: assigning a value of any type to \<^verbatim>\<open>pubmed_id\<close>, \<^verbatim>\<open>doi\<close>, \<^verbatim>\<open>author_list\<close>, \<^verbatim>\<open>title\<close> or
  \<^verbatim>\<open>status\<close> never raises, and the value is stored and read back as it is.
\<close>

theorem Publication_own_attributes_unvalidated:
  assumes "lookup h r = Some (Inst Publication attrs)"
    and "a \<in> {''pubmed_id'', ''doi'', ''author_list'', ''title'', ''status''}"
  shows "setattr (VRef r) a v h = Inr ((), h[r := Inst Publication (store a v attrs)])
       \<and> getattr (h[r := Inst Publication (store a v attrs)]) (VRef r) a = Inr v"
proof -
  from assms(1) have r: "r < length h" by (rule lookup_Some_less)
  from assms(2) have "a \<noteq> ''comments''" by auto
  then have "find_property Publication a = None" by (rule find_property_Publication)
  then show ?thesis
    using assms(1)
    by (simp add: setattr_def getattr_def lookup_update_same[OF r] read_slot_store_same)
qed

theorem Publication_own_attributes_unvalidated_witness:
  "lookup [Inst Publication [(''_Commentable__comments'', VNone), (''pubmed_id'', VNone)]] 0
     = Some (Inst Publication [(''_Commentable__comments'', VNone), (''pubmed_id'', VNone)])
   \<and> ''pubmed_id'' \<in> {''pubmed_id'', ''doi'', ''author_list'', ''title'', ''status''}
   \<and> setattr (VRef 0) ''pubmed_id'' (VInt 12345)
        [Inst Publication [(''_Commentable__comments'', VNone), (''pubmed_id'', VNone)]]
     = Inr ((), [Inst Publication [(''_Commentable__comments'', VNone), (''pubmed_id'', VInt 12345)]])
   \<and> getattr [Inst Publication [(''_Commentable__comments'', VNone), (''pubmed_id'', VInt 12345)]]
        (VRef 0) ''pubmed_id'' = Inr (VInt 12345)"
proof -
  have a: "lookup [Inst Publication [(''_Commentable__comments'', VNone), (''pubmed_id'', VNone)]] 0
     = Some (Inst Publication [(''_Commentable__comments'', VNone), (''pubmed_id'', VNone)])"
    by (simp add: lookup_def)
  have b: "''pubmed_id'' \<in> {''pubmed_id'', ''doi'', ''author_list'', ''title'', ''status''}"
    by simp
  show ?thesis
    using Publication_own_attributes_unvalidated[OF a b, of "VInt 12345"] a b by simp
qed

text \<open>
  Claim C9 as stated fails for the attribute \<^verbatim>\<open>comments\<close>, which \<^verbatim>\<open>Publication\<close> inherits
  from \<^verbatim>\<open>Commentable\<close> together with its validating setter: on a publication constructed
  with all defaults, assigning the integer 5 to \<^verbatim>\<open>comments\<close> raises and stores nothing.
\<close>

theorem Publication_comments_counterexample:
  "Publication_init VNone VNone VNone VNone VNone VNone []
     = Inr (VRef 0, [Inst Publication
          [(''_Commentable__comments'', VNone), (''pubmed_id'', VNone), (''doi'', VNone),
           (''author_list'', VNone), (''title'', VNone), (''status'', VNone)]])
   \<and> setattr (VRef 0) ''comments'' (VInt 5)
       [Inst Publication
          [(''_Commentable__comments'', VNone), (''pubmed_id'', VNone), (''doi'', VNone),
           (''author_list'', VNone), (''title'', VNone), (''status'', VNone)]]
     = Inl (ValidationFailure, [Inst Publication
          [(''_Commentable__comments'', VNone), (''pubmed_id'', VNone), (''doi'', VNone),
           (''author_list'', VNone), (''title'', VNone), (''status'', VNone)]])"
  by (simp add: Publication_init_def construct_def alloc_def bind_result_def setattr_def
      lookup_def find_property_def class_property_def plain_property_def
      accepts_def has_type_def isinstance_list_def)

section \<open>The edges of the assay graph\<close>

lemma edges_add_edge:
  "add_edge h g u v = Inr g' \<Longrightarrow> set (edges g') = insert (u, v) (set (edges g))"
  by (auto simp: add_edge_def add_new_def split: if_splits)

lemma edges_add_edges_from:
  "add_edges_from h g u vs = Inr g' \<Longrightarrow> set (edges g') = set (edges g) \<union> {u} \<times> set vs"
proof (induction vs arbitrary: g)
  case Nil
  then show ?case by simp
next
  case (Cons v vs)
  then show ?case
    by (auto split: sum.splits dest!: edges_add_edge)
qed

lemma edges_add_edges_to:
  "add_edges_to h g us v = Inr g' \<Longrightarrow> set (edges g') = set (edges g) \<union> set us \<times> {v}"
proof (induction us arbitrary: g)
  case Nil
  then show ?case by simp
next
  case (Cons u us)
  then show ?case
    by (auto split: sum.splits dest!: edges_add_edge)
qed

lemma bind_read_Inr:
  "bind_read m f = Inr y \<Longrightarrow> \<exists>x. m = Inr x \<and> f x = Inr y"
  by (cases m) (auto simp: bind_read_def)

lemma edges_forward_edges:
  assumes "forward_edges h p g = Inr g'"
  shows "set (edges g') = set (edges g) \<union> {p} \<times> forward_targets h p"
proof -
  from assms obtain nxt c where
    n: "getattr h p ''next_process'' = Inr nxt"
    and c: "(if nxt \<noteq> VNone then Inr True
             else bind_read (getattr h p ''outputs'') (\<lambda>outputs. Inr (truthy h outputs))) = Inr c"
    and rest: "(if c then
            bind_read (getattr h p ''outputs'') (\<lambda>outputs.
              if truthy h outputs then
                bind_read (py_iter h outputs) (\<lambda>ns.
                  add_edges_from h g p (filter (\<lambda>n. \<not> isinstance h n [DataFile]) ns))
              else add_edge h g p nxt)
          else Inr g) = Inr g'"
    unfolding forward_edges_def by (blast dest: bind_read_Inr)
  show ?thesis
  proof (cases c)
    case True
    with rest obtain outs where
      o: "getattr h p ''outputs'' = Inr outs"
      and r2: "(if truthy h outs then
                bind_read (py_iter h outs) (\<lambda>ns.
                  add_edges_from h g p (filter (\<lambda>n. \<not> isinstance h n [DataFile]) ns))
              else add_edge h g p nxt) = Inr g'"
      by (auto dest: bind_read_Inr)
    show ?thesis
    proof (cases "truthy h outs")
      case t: True
      with r2 obtain ns where i: "py_iter h outs = Inr ns"
        and a: "add_edges_from h g p (filter (\<lambda>n. \<not> isinstance h n [DataFile]) ns) = Inr g'"
        by (auto dest: bind_read_Inr)
      show ?thesis
        using edges_add_edges_from[OF a] by (simp add: forward_targets_def o t i)
    next
      case f: False
      with r2 have a: "add_edge h g p nxt = Inr g'" by simp
      from c f o True have "nxt \<noteq> VNone"
        by (auto simp: bind_read_def split: if_splits)
      then show ?thesis
        using edges_add_edge[OF a] by (simp add: forward_targets_def o f n)
    qed
  next
    case False
    with rest have g: "g' = g" by simp
    from c False have nn: "nxt = VNone" by (auto split: if_splits)
    with c False obtain outs where o: "getattr h p ''outputs'' = Inr outs" and f: "\<not> truthy h outs"
      by (auto dest!: bind_read_Inr)
    show ?thesis by (simp add: g forward_targets_def o f n nn)
  qed
qed


lemma edges_backward_edges:
  assumes "backward_edges h p g = Inr g'"
  shows "set (edges g') = set (edges g) \<union> backward_sources h p \<times> {p}"
proof -
  from assms obtain ins where
    i: "getattr h p ''inputs'' = Inr ins"
    and rest: "(if truthy h ins then
         bind_read (py_iter h ins) (\<lambda>ns. add_edges_to h g ns p)
       else
         bind_read (getattr h p ''prev_process'') (\<lambda>prev_process.
           if prev_process \<noteq> VNone then add_edge h g prev_process p else Inr g)) = Inr g'"
    unfolding backward_edges_def by (blast dest: bind_read_Inr)
  show ?thesis
  proof (cases "truthy h ins")
    case t: True
    with rest obtain ns where it: "py_iter h ins = Inr ns" and a: "add_edges_to h g ns p = Inr g'"
      by (auto dest: bind_read_Inr)
    show ?thesis
      using edges_add_edges_to[OF a] by (simp add: backward_sources_def i t it)
  next
    case f: False
    with rest obtain prev where pr: "getattr h p ''prev_process'' = Inr prev"
      and r2: "(if prev \<noteq> VNone then add_edge h g prev p else Inr g) = Inr g'"
      by (auto dest: bind_read_Inr)
    show ?thesis
    proof (cases "prev = VNone")
      case True
      with r2 show ?thesis by (simp add: backward_sources_def i f pr)
    next
      case False
      with r2 have a: "add_edge h g prev p = Inr g'" by simp
      show ?thesis
        using edges_add_edge[OF a] False by (simp add: backward_sources_def i f pr)
    qed
  qed
qed

lemma edges_build_loop:
  "build_loop h g ps = Inr G \<Longrightarrow>
   set (edges G) = set (edges g)
      \<union> (\<Union>p\<in>set ps. {p} \<times> forward_targets h p \<union> backward_sources h p \<times> {p})"
proof (induction ps arbitrary: g)
  case Nil
  then show ?case by simp
next
  case (Cons p ps)
  from Cons.prems obtain g1 g2 where
    f: "forward_edges h p g = Inr g1" and b: "backward_edges h p g1 = Inr g2"
    and r: "build_loop h g2 ps = Inr G"
    by (auto split: sum.splits)
  show ?case
    unfolding Cons.IH[OF r] edges_backward_edges[OF b] edges_forward_edges[OF f]
    by auto
qed

lemma edges_build_assay_graph:
  assumes "build_assay_graph h ps = Inr G"
  shows "((u, v) \<in> set (edges G)) =
     (\<exists>p\<in>set ps. (u = p \<and> v \<in> forward_targets h p) \<or> (v = p \<and> u \<in> backward_sources h p))"
proof -
  from assms have "build_loop h empty_graph ps = Inr G" by (simp add: build_assay_graph_def)
  from edges_build_loop[OF this] show ?thesis by (auto simp: empty_graph_def)
qed


lemma py_iter_truthy:
  assumes "py_iter h v = Inr ns"
  shows "truthy h v = (ns \<noteq> [])"
proof (cases v)
  case (VRef r)
  with assms obtain vs where "lookup h r = Some (PList vs)" and "vs = ns"
    by (auto simp: py_iter_def split: option.splits obj.splits)
  then show ?thesis by (simp add: truthy_def VRef)
next
  case (VStr s)
  with assms show ?thesis by (auto simp: py_iter_def truthy_def)
qed (use assms in \<open>simp_all add: py_iter_def\<close>)

lemma isinstance_Inst:
  "isinstance h v cs = (\<exists>r c attrs. v = VRef r \<and> lookup h r = Some (Inst c attrs) \<and> (\<exists>d\<in>set (mro c). d \<in> set cs))"
  by (cases v) (auto simp: isinstance_def list_ex_iff split: option.splits obj.splits)

lemma Process_not_DataFile:
  assumes "isinstance h q [Process]"
  shows "\<not> isinstance h q [DataFile]"
proof -
  from assms obtain r c attrs where q: "q = VRef r" and l: "lookup h r = Some (Inst c attrs)"
    and m: "Process \<in> set (mro c)"
    by (auto simp: isinstance_Inst)
  from m have "c = Process" by (cases c) simp_all
  then show ?thesis using q l by (simp add: isinstance_Inst)
qed

text \<open>
  Claim C3, as amended. When the builder returns for a sequence of processes and process
  \<^verbatim>\<open>p\<close> of the sequence has a non-empty \<^verbatim>\<open>outputs\<close>, the graph has the edge from \<^verbatim>\<open>p\<close> to an
  output exactly when that output is not a data file, and \<^verbatim>\<open>p\<close> itself contributes no edge
  to its \<^verbatim>\<open>next_process\<close>: that edge is in the graph exactly when \<^verbatim>\<open>next_process\<close> is one
  of the outputs of \<^verbatim>\<open>p\<close> that is not a data file, or is a process of the sequence whose
  own incoming edges start at \<^verbatim>\<open>p\<close> (it lists \<^verbatim>\<open>p\<close> among its inputs, or has no inputs and has
  \<^verbatim>\<open>p\<close> as its \<^verbatim>\<open>prev_process\<close>). When \<^verbatim>\<open>outputs\<close> is empty and \<^verbatim>\<open>next_process\<close> is set, the edge
  from \<^verbatim>\<open>p\<close> to \<^verbatim>\<open>next_process\<close> is in the graph.
\<close>

theorem build_graph_outputs_edges:
  assumes "build_assay_graph h ps = Inr G"
    and "p \<in> set ps"
    and "list_all (\<lambda>q. isinstance h q [Process]) ps"
    and "getattr h p ''outputs'' = Inr outs"
    and "py_iter h outs = Inr os"
    and "getattr h p ''next_process'' = Inr nxt"
  shows "(os \<noteq> [] \<longrightarrow>
            (\<forall>out\<in>set os. ((p, out) \<in> set (edges G)) = (\<not> isinstance h out [DataFile]))
          \<and> (((p, nxt) \<in> set (edges G)) =
               ((nxt \<in> set os \<and> \<not> isinstance h nxt [DataFile])
                \<or> (nxt \<in> set ps \<and> p \<in> backward_sources h nxt))))
       \<and> (os = [] \<and> nxt \<noteq> VNone \<longrightarrow> (p, nxt) \<in> set (edges G))"
proof -
  note E = edges_build_assay_graph[OF assms(1)]
  have t: "truthy h outs = (os \<noteq> [])" using assms(5) by (rule py_iter_truthy)
  have ft: "forward_targets h p =
      (if os \<noteq> [] then {n \<in> set os. \<not> isinstance h n [DataFile]}
       else if nxt \<noteq> VNone then {nxt} else {})"
    by (auto simp: forward_targets_def assms(4,5,6) t)
  have nd: "\<not> isinstance h q [DataFile]" if "q \<in> set ps" for q
    using that assms(3) Process_not_DataFile[of h q] by (auto simp: list_all_iff)
  have 1: "((p, out) \<in> set (edges G)) = (\<not> isinstance h out [DataFile])"
    if ne: "os \<noteq> []" and oin: "out \<in> set os" for out
  proof
    assume "(p, out) \<in> set (edges G)"
    then obtain q where q: "q \<in> set ps"
      and d: "(p = q \<and> out \<in> forward_targets h q) \<or> (out = q \<and> p \<in> backward_sources h q)"
      unfolding E by blast
    from d show "\<not> isinstance h out [DataFile]"
    proof
      assume "p = q \<and> out \<in> forward_targets h q"
      then have "out \<in> forward_targets h p" by simp
      then show ?thesis using ne by (simp add: ft)
    next
      assume "out = q \<and> p \<in> backward_sources h q"
      then show ?thesis using nd[OF q] by simp
    qed
  next
    assume "\<not> isinstance h out [DataFile]"
    then have "out \<in> forward_targets h p" using ne oin by (simp add: ft)
    then show "(p, out) \<in> set (edges G)" unfolding E using assms(2) by blast
  qed
  have 2: "((p, nxt) \<in> set (edges G)) =
               ((nxt \<in> set os \<and> \<not> isinstance h nxt [DataFile])
                \<or> (nxt \<in> set ps \<and> p \<in> backward_sources h nxt))"
    if ne: "os \<noteq> []"
  proof -
    have "nxt \<in> forward_targets h p = (nxt \<in> set os \<and> \<not> isinstance h nxt [DataFile])"
      using ne by (simp add: ft)
    then show ?thesis unfolding E using assms(2) by blast
  qed
  have 3: "(p, nxt) \<in> set (edges G)" if "os = []" and "nxt \<noteq> VNone"
  proof -
    from that have "nxt \<in> forward_targets h p" by (simp add: ft)
    then show ?thesis unfolding E using assms(2) by blast
  qed
  from 1 2 3 show ?thesis by blast
qed

theorem build_graph_outputs_edges_witness:
  "build_assay_graph outputs_example_heap [VRef 2, VRef 6] = Inr \<lparr>nodes = [VRef 2, VRef 3, VRef 6], edges = [(VRef 2, VRef 3), (VRef 2, VRef 6)]\<rparr>
   \<and> VRef 2 \<in> set [VRef 2, VRef 6]
   \<and> list_all (\<lambda>q. isinstance outputs_example_heap q [Process]) [VRef 2, VRef 6]
   \<and> getattr outputs_example_heap (VRef 2) ''outputs'' = Inr (VRef 0)
   \<and> py_iter outputs_example_heap (VRef 0) = Inr [VRef 3, VRef 7]
   \<and> getattr outputs_example_heap (VRef 2) ''next_process'' = Inr (VRef 6)
   \<and> (VRef 2, VRef 3) \<in> set (edges \<lparr>nodes = [VRef 2, VRef 3, VRef 6], edges = [(VRef 2, VRef 3), (VRef 2, VRef 6)]\<rparr>)
   \<and> \<not> isinstance outputs_example_heap (VRef 3) [DataFile]
   \<and> (VRef 2, VRef 7) \<notin> set (edges \<lparr>nodes = [VRef 2, VRef 3, VRef 6], edges = [(VRef 2, VRef 3), (VRef 2, VRef 6)]\<rparr>)
   \<and> isinstance outputs_example_heap (VRef 7) [DataFile]
   \<and> (VRef 2, VRef 6) \<in> set (edges \<lparr>nodes = [VRef 2, VRef 3, VRef 6], edges = [(VRef 2, VRef 3), (VRef 2, VRef 6)]\<rparr>)
   \<and> VRef 2 \<in> backward_sources outputs_example_heap (VRef 6)
   \<and> build_assay_graph inputs_example_heap [VRef 2, VRef 6] = Inr \<lparr>nodes = [VRef 2, VRef 6, VRef 3], edges = [(VRef 2, VRef 6), (VRef 3, VRef 6)]\<rparr>
   \<and> list_all (\<lambda>q. isinstance inputs_example_heap q [Process]) [VRef 2, VRef 6]
   \<and> getattr inputs_example_heap (VRef 2) ''outputs'' = Inr (VRef 0)
   \<and> py_iter inputs_example_heap (VRef 0) = Inr []
   \<and> getattr inputs_example_heap (VRef 2) ''next_process'' = Inr (VRef 6)
   \<and> (VRef 2, VRef 6) \<in> set (edges \<lparr>nodes = [VRef 2, VRef 6, VRef 3], edges = [(VRef 2, VRef 6), (VRef 3, VRef 6)]\<rparr>)"
proof -
  have a: "build_assay_graph outputs_example_heap [VRef 2, VRef 6] = Inr \<lparr>nodes = [VRef 2, VRef 3, VRef 6], edges = [(VRef 2, VRef 3), (VRef 2, VRef 6)]\<rparr>"
    by code_simp
  have b: "VRef 2 \<in> set [VRef 2, VRef 6]" by simp
  have c: "list_all (\<lambda>q. isinstance outputs_example_heap q [Process]) [VRef 2, VRef 6]"
    by code_simp
  have d: "getattr outputs_example_heap (VRef 2) ''outputs'' = Inr (VRef 0)"
    by code_simp
  have e: "py_iter outputs_example_heap (VRef 0) = Inr [VRef 3, VRef 7]"
    by code_simp
  have f: "getattr outputs_example_heap (VRef 2) ''next_process'' = Inr (VRef 6)"
    by code_simp
  have i: "\<not> isinstance outputs_example_heap (VRef 3) [DataFile]"
    "isinstance outputs_example_heap (VRef 7) [DataFile]"
    by code_simp+
  have a': "build_assay_graph inputs_example_heap [VRef 2, VRef 6] = Inr \<lparr>nodes = [VRef 2, VRef 6, VRef 3], edges = [(VRef 2, VRef 6), (VRef 3, VRef 6)]\<rparr>"
    by code_simp
  have c': "list_all (\<lambda>q. isinstance inputs_example_heap q [Process]) [VRef 2, VRef 6]"
    by code_simp
  have d': "getattr inputs_example_heap (VRef 2) ''outputs'' = Inr (VRef 0)"
    by code_simp
  have e': "py_iter inputs_example_heap (VRef 0) = Inr []"
    by code_simp
  have f': "getattr inputs_example_heap (VRef 2) ''next_process'' = Inr (VRef 6)"
    by code_simp
  show ?thesis
    using build_graph_outputs_edges[OF a b c d e f] build_graph_outputs_edges[OF a' b c' d' e' f']
      a b c d e f i a' c' d' e' f'
    by simp
qed

text \<open>
  Claim C3 as stated fails on the first example heap: \<^verbatim>\<open>p0\<close> has a non-empty \<^verbatim>\<open>outputs\<close> and
  its \<^verbatim>\<open>next_process\<close> is \<^verbatim>\<open>p1\<close>, yet the graph of the sequence \<^verbatim>\<open>[p0, p1]\<close> has the edge from
  \<^verbatim>\<open>p0\<close> to \<^verbatim>\<open>p1\<close>, added for \<^verbatim>\<open>p1\<close>, which has no inputs and \<^verbatim>\<open>p0\<close> as its \<^verbatim>\<open>prev_process\<close>.
\<close>

theorem build_graph_outputs_counterexample:
  "build_assay_graph outputs_example_heap [VRef 2, VRef 6] = Inr \<lparr>nodes = [VRef 2, VRef 3, VRef 6], edges = [(VRef 2, VRef 3), (VRef 2, VRef 6)]\<rparr>
   \<and> getattr outputs_example_heap (VRef 2) ''outputs'' = Inr (VRef 0)
   \<and> py_iter outputs_example_heap (VRef 0) = Inr [VRef 3, VRef 7]
   \<and> getattr outputs_example_heap (VRef 2) ''next_process'' = Inr (VRef 6)
   \<and> (VRef 2, VRef 6) \<in> set (edges \<lparr>nodes = [VRef 2, VRef 3, VRef 6], edges = [(VRef 2, VRef 3), (VRef 2, VRef 6)]\<rparr>)"
  by code_simp

text \<open>
  Claim C4, as amended. When the builder returns and process \<^verbatim>\<open>p\<close> of the sequence has a
  non-empty \<^verbatim>\<open>inputs\<close>, the graph has an edge from every input to \<^verbatim>\<open>p\<close>, and \<^verbatim>\<open>p\<close> itself
  contributes no edge from its \<^verbatim>\<open>prev_process\<close>: that edge is in the graph exactly when
  \<^verbatim>\<open>prev_process\<close> is one of the inputs of \<^verbatim>\<open>p\<close>, or is a process of the sequence whose own
  outgoing edges end at \<^verbatim>\<open>p\<close> (it has \<^verbatim>\<open>p\<close> among its outputs, or has no outputs and has \<^verbatim>\<open>p\<close>
  as its \<^verbatim>\<open>next_process\<close>). When \<^verbatim>\<open>inputs\<close> is empty and \<^verbatim>\<open>prev_process\<close> is set, the edge
  from \<^verbatim>\<open>prev_process\<close> to \<^verbatim>\<open>p\<close> is in the graph.
\<close>

theorem build_graph_inputs_edges:
  assumes "build_assay_graph h ps = Inr G"
    and "p \<in> set ps"
    and "getattr h p ''inputs'' = Inr ins"
    and "py_iter h ins = Inr srcs"
    and "getattr h p ''prev_process'' = Inr prev"
  shows "(srcs \<noteq> [] \<longrightarrow>
            (\<forall>i\<in>set srcs. (i, p) \<in> set (edges G))
          \<and> (((prev, p) \<in> set (edges G)) =
               (prev \<in> set srcs \<or> (prev \<in> set ps \<and> p \<in> forward_targets h prev))))
       \<and> (srcs = [] \<and> prev \<noteq> VNone \<longrightarrow> (prev, p) \<in> set (edges G))"
proof -
  note E = edges_build_assay_graph[OF assms(1)]
  have t: "truthy h ins = (srcs \<noteq> [])" using assms(4) by (rule py_iter_truthy)
  have bs: "backward_sources h p =
      (if srcs \<noteq> [] then set srcs else if prev \<noteq> VNone then {prev} else {})"
    by (auto simp: backward_sources_def assms(3,4,5) t)
  have 1: "(i, p) \<in> set (edges G)" if "srcs \<noteq> []" and "i \<in> set srcs" for i
  proof -
    from that have "i \<in> backward_sources h p" by (simp add: bs)
    then show ?thesis unfolding E using assms(2) by blast
  qed
  have 2: "((prev, p) \<in> set (edges G)) =
               (prev \<in> set srcs \<or> (prev \<in> set ps \<and> p \<in> forward_targets h prev))"
    if ne: "srcs \<noteq> []"
  proof -
    have "prev \<in> backward_sources h p = (prev \<in> set srcs)" using ne by (simp add: bs)
    then show ?thesis unfolding E using assms(2) by blast
  qed
  have 3: "(prev, p) \<in> set (edges G)" if "srcs = []" and "prev \<noteq> VNone"
  proof -
    from that have "prev \<in> backward_sources h p" by (simp add: bs)
    then show ?thesis unfolding E using assms(2) by blast
  qed
  from 1 2 3 show ?thesis by blast
qed

theorem build_graph_inputs_edges_witness:
  "build_assay_graph inputs_example_heap [VRef 2, VRef 6] = Inr \<lparr>nodes = [VRef 2, VRef 6, VRef 3], edges = [(VRef 2, VRef 6), (VRef 3, VRef 6)]\<rparr>
   \<and> VRef 6 \<in> set [VRef 2, VRef 6]
   \<and> getattr inputs_example_heap (VRef 6) ''inputs'' = Inr (VRef 5)
   \<and> py_iter inputs_example_heap (VRef 5) = Inr [VRef 3]
   \<and> getattr inputs_example_heap (VRef 6) ''prev_process'' = Inr (VRef 2)
   \<and> (VRef 3, VRef 6) \<in> set (edges \<lparr>nodes = [VRef 2, VRef 6, VRef 3], edges = [(VRef 2, VRef 6), (VRef 3, VRef 6)]\<rparr>)
   \<and> (VRef 2, VRef 6) \<in> set (edges \<lparr>nodes = [VRef 2, VRef 6, VRef 3], edges = [(VRef 2, VRef 6), (VRef 3, VRef 6)]\<rparr>)
   \<and> VRef 6 \<in> forward_targets inputs_example_heap (VRef 2)
   \<and> build_assay_graph outputs_example_heap [VRef 2, VRef 6] = Inr \<lparr>nodes = [VRef 2, VRef 3, VRef 6], edges = [(VRef 2, VRef 3), (VRef 2, VRef 6)]\<rparr>
   \<and> getattr outputs_example_heap (VRef 6) ''inputs'' = Inr (VRef 5)
   \<and> py_iter outputs_example_heap (VRef 5) = Inr []
   \<and> getattr outputs_example_heap (VRef 6) ''prev_process'' = Inr (VRef 2)
   \<and> (VRef 2, VRef 6) \<in> set (edges \<lparr>nodes = [VRef 2, VRef 3, VRef 6], edges = [(VRef 2, VRef 3), (VRef 2, VRef 6)]\<rparr>)"
proof -
  have a: "build_assay_graph inputs_example_heap [VRef 2, VRef 6] = Inr \<lparr>nodes = [VRef 2, VRef 6, VRef 3], edges = [(VRef 2, VRef 6), (VRef 3, VRef 6)]\<rparr>"
    by code_simp
  have b: "VRef 6 \<in> set [VRef 2, VRef 6]" by simp
  have c: "getattr inputs_example_heap (VRef 6) ''inputs'' = Inr (VRef 5)"
    by code_simp
  have d: "py_iter inputs_example_heap (VRef 5) = Inr [VRef 3]"
    by code_simp
  have e: "getattr inputs_example_heap (VRef 6) ''prev_process'' = Inr (VRef 2)"
    by code_simp
  have a': "build_assay_graph outputs_example_heap [VRef 2, VRef 6] = Inr \<lparr>nodes = [VRef 2, VRef 3, VRef 6], edges = [(VRef 2, VRef 3), (VRef 2, VRef 6)]\<rparr>"
    by code_simp
  have c': "getattr outputs_example_heap (VRef 6) ''inputs'' = Inr (VRef 5)"
    by code_simp
  have d': "py_iter outputs_example_heap (VRef 5) = Inr []"
    by code_simp
  have e': "getattr outputs_example_heap (VRef 6) ''prev_process'' = Inr (VRef 2)"
    by code_simp
  show ?thesis
    using build_graph_inputs_edges[OF a b c d e] build_graph_inputs_edges[OF a' b c' d' e']
      a b c d e a' c' d' e'
    by simp
qed

text \<open>
  Claim C4 as stated fails on the second example heap: \<^verbatim>\<open>p1\<close> has a non-empty \<^verbatim>\<open>inputs\<close> and
  its \<^verbatim>\<open>prev_process\<close> is \<^verbatim>\<open>p0\<close>, yet the graph of the sequence \<^verbatim>\<open>[p0, p1]\<close> has the edge from
  \<^verbatim>\<open>p0\<close> to \<^verbatim>\<open>p1\<close>, added for \<^verbatim>\<open>p0\<close>, which has no outputs and \<^verbatim>\<open>p1\<close> as its \<^verbatim>\<open>next_process\<close>.
\<close>

theorem build_graph_inputs_counterexample:
  "build_assay_graph inputs_example_heap [VRef 2, VRef 6] = Inr \<lparr>nodes = [VRef 2, VRef 6, VRef 3], edges = [(VRef 2, VRef 6), (VRef 3, VRef 6)]\<rparr>
   \<and> getattr inputs_example_heap (VRef 6) ''inputs'' = Inr (VRef 5)
   \<and> py_iter inputs_example_heap (VRef 5) = Inr [VRef 3]
   \<and> getattr inputs_example_heap (VRef 6) ''prev_process'' = Inr (VRef 2)
   \<and> (VRef 2, VRef 6) \<in> set (edges \<lparr>nodes = [VRef 2, VRef 6, VRef 3], edges = [(VRef 2, VRef 6), (VRef 3, VRef 6)]\<rparr>)"
  by code_simp

section \<open>Heaps that extend a heap\<close>


lemma fresh_mono: "fresh L h v \<Longrightarrow> length h \<le> length h' \<Longrightarrow> fresh L h' v"
  by (cases v) (auto simp: fresh_def)

lemma fresh_atomic [simp]:
  "fresh L h VNone" "fresh L h (VStr s)" "fresh L h (VInt i)" "fresh L h (VFloat w)"
  by (simp_all add: fresh_def)

lemma list_all_fresh_mono:
  "list_all (fresh L h) vs \<Longrightarrow> length h \<le> length h' \<Longrightarrow> list_all (fresh L h') vs"
  by (auto simp: list_all_iff intro: fresh_mono)

lemma memo_ok_mono: "memo_ok L h m \<Longrightarrow> length h \<le> length h' \<Longrightarrow> memo_ok L h' m"
  by (fastforce simp: memo_ok_def)

lemma ext_refl: "good L h \<Longrightarrow> ext L h h"
  by (simp add: good_def ext_def)

lemma ext_trans: "ext L h h' \<Longrightarrow> ext L h' h'' \<Longrightarrow> ext L h h''"
  by (auto simp: ext_def)

lemma ext_good: "good L h \<Longrightarrow> ext L h h' \<Longrightarrow> good L h'"
  by (auto simp: good_def ext_def)

lemma ext_length: "ext L h h' \<Longrightarrow> length h \<le> length h'"
  by (simp add: ext_def)

lemma keeps_Inr: "good L h \<Longrightarrow> Q x h \<Longrightarrow> keeps L h (Inr (x, h)) Q"
  by (simp add: keeps_def ext_refl)

lemma keeps_Inl: "good L h \<Longrightarrow> keeps L h (Inl (e, h)) Q"
  by (simp add: keeps_def ext_refl)

lemma keeps_ext: "keeps L h res Q \<Longrightarrow> ext L h (final_heap res)"
  by (simp add: keeps_def)

lemma keeps_result: "keeps L h res Q \<Longrightarrow> res = Inr (x, h') \<Longrightarrow> Q x h' \<and> ext L h h'"
  by (auto simp: keeps_def)

lemma keeps_weaken:
  "keeps L h res Q \<Longrightarrow> (\<And>x h'. res = Inr (x, h') \<Longrightarrow> ext L h h' \<Longrightarrow> Q x h' \<Longrightarrow> Q' x h')
   \<Longrightarrow> keeps L h res Q'"
  by (cases res) (auto simp: keeps_def)

lemma keeps_bind:
  assumes "keeps L h m Q"
    and "\<And>x h'. m = Inr (x, h') \<Longrightarrow> ext L h h' \<Longrightarrow> Q x h' \<Longrightarrow> keeps L h' (f x h') Q'"
  shows "keeps L h (bind_result m f) Q'"
proof (cases m)
  case (Inl a)
  with assms(1) show ?thesis by (cases a) (auto simp: keeps_def bind_result_def)
next
  case (Inr b)
  obtain x h' where b: "b = (x, h')" by (cases b)
  from assms(1) Inr b have e: "ext L h h'" and q: "Q x h'" by (auto simp: keeps_def)
  from assms(2)[OF _ e q] Inr b have k: "keeps L h' (f x h') Q'" by simp
  have "ext L h (final_heap (f x h'))" using e keeps_ext[OF k] by (rule ext_trans)
  then show ?thesis using k Inr b by (auto simp: keeps_def bind_result_def)
qed





lemma closed_above_update:
  assumes "closed_above L h" and "list_all (fresh L h) (obj_vals ob)"
  shows "closed_above L (h[y := ob])"
  unfolding closed_above_def
proof (intro allI impI)
  fix r assume r: "L \<le> r \<and> r < length (h[y := ob])"
  show "list_all (fresh L (h[y := ob])) (obj_vals (h[y := ob] ! r))"
  proof (cases "r = y")
    case True
    with r have "h[y := ob] ! r = ob" by simp
    with assms(2) show ?thesis by (simp add: list_all_iff fresh_def split: val.splits)
  next
    case False
    then have "h[y := ob] ! r = h ! r" by simp
    moreover from assms(1) r have "list_all (fresh L h) (obj_vals (h ! r))"
      by (simp add: closed_above_def)
    ultimately show ?thesis by (simp add: list_all_iff fresh_def split: val.splits)
  qed
qed

lemma closed_above_alloc:
  assumes "closed_above L h" and "obj_vals ob = []"
  shows "closed_above L (h @ [ob])"
  unfolding closed_above_def
proof (intro allI impI)
  fix r assume r: "L \<le> r \<and> r < length (h @ [ob])"
  show "list_all (fresh L (h @ [ob])) (obj_vals ((h @ [ob]) ! r))"
  proof (cases "r < length h")
    case True
    with assms(1) r have "list_all (fresh L h) (obj_vals (h ! r))"
      by (simp add: closed_above_def)
    then have "list_all (fresh L (h @ [ob])) (obj_vals (h ! r))"
      by (rule list_all_fresh_mono) simp
    with True show ?thesis by (simp add: nth_append)
  next
    case False
    with r have "r = length h" by simp
    with assms(2) show ?thesis by simp
  qed
qed

lemma ext_alloc:
  assumes "good L h" and "obj_vals ob = []"
  shows "ext L h (h @ [ob])"
  using assms closed_above_alloc[of L h ob]
  by (auto simp: ext_def good_def nth_append)

lemma ext_update:
  assumes "good L h" and "L \<le> y" and "list_all (fresh L h) (obj_vals ob)"
  shows "ext L h (h[y := ob])"
  using assms closed_above_update[of L h ob y]
  by (auto simp: ext_def good_def)

lemma copy_all_keeps:
  assumes f: "\<And>v m h. good L h \<Longrightarrow> memo_ok L h m \<Longrightarrow>
                keeps L h (f v m h) (\<lambda>(v', m') h'. fresh L h' v' \<and> memo_ok L h' m')"
    and "good L h" and "memo_ok L h m"
  shows "keeps L h (copy_all f vs m h)
           (\<lambda>(vs', m') h'. list_all (fresh L h') vs' \<and> memo_ok L h' m' \<and> length vs' = length vs)"
  using assms(2,3)
proof (induction vs arbitrary: m h)
  case Nil
  then show ?case by (simp add: keeps_Inr)
next
  case (Cons v vs)
  have k: "keeps L h (f v m h) (\<lambda>(v', m') h'. fresh L h' v' \<and> memo_ok L h' m')"
    using Cons.prems by (rule f)
  show ?case
  proof (cases "f v m h")
    case (Inl a)
    with k show ?thesis by (cases a) (auto simp: keeps_def)
  next
    case (Inr b)
    obtain v' m' h' where b: "b = ((v', m'), h')" by (cases b) auto
    from keeps_result[OF k] Inr b have fv: "fresh L h' v'" and mo: "memo_ok L h' m'"
      and e: "ext L h h'" by auto
    from ext_good[OF Cons.prems(1) e] have g: "good L h'" .
    note k2 = Cons.IH[OF g mo]
    show ?thesis
    proof (cases "copy_all f vs m' h'")
      case (Inl a)
      with k2 e Inr b show ?thesis by (cases a) (auto simp: keeps_def intro: ext_trans)
    next
      case r2: (Inr c)
      obtain vs' m'' h'' where c: "c = ((vs', m''), h'')" by (cases c) auto
      from keeps_result[OF k2] r2 c have a: "list_all (fresh L h'') vs'" "memo_ok L h'' m''"
        "length vs' = length vs" and e2: "ext L h' h''" by auto
      have "fresh L h'' v'" using fv ext_length[OF e2] by (rule fresh_mono)
      with a ext_trans[OF e e2] show ?thesis using Inr b r2 c by (simp add: keeps_def)
    qed
  qed
qed

section \<open>Deep copies keep the objects that exist\<close>


lemma copy_into_keeps:
  assumes g: "good L h" and mo: "memo_ok L h m"
    and empty: "obj_vals ob0 = []"
    and vals: "\<And>vs'. length vs' = length vs \<Longrightarrow> obj_vals (mk vs') = vs'"
    and k: "\<And>m1 h1. good L h1 \<Longrightarrow> memo_ok L h1 m1 \<Longrightarrow>
              keeps L h1 (copy_all f vs m1 h1)
                (\<lambda>(vs', m') h'. list_all (fresh L h') vs' \<and> memo_ok L h' m' \<and> length vs' = length vs)"
  shows "keeps L h
           (case alloc h ob0 of
              (y, h1) \<Rightarrow>
                (case copy_all f vs (m(r \<mapsto> y)) h1 of
                   Inl e \<Rightarrow> Inl e
                 | Inr ((vs', m'), h') \<Rightarrow> Inr ((VRef y, m'), h'[y := mk vs'])))
           (\<lambda>(v', m') h'. fresh L h' v' \<and> memo_ok L h' m')"
proof -
  let ?y = "length h" and ?h1 = "h @ [ob0]"
  have e1: "ext L h ?h1" using g empty by (rule ext_alloc)
  have g1: "good L ?h1" using g e1 by (rule ext_good)
  have Ly: "L \<le> ?y" using g by (simp add: good_def)
  have mo1: "memo_ok L ?h1 (m(r \<mapsto> ?y))"
    using mo Ly by (auto simp: memo_ok_def less_Suc_eq)
  note kk = k[OF g1 mo1]
  show ?thesis
  proof (cases "copy_all f vs (m(r \<mapsto> ?y)) ?h1")
    case (Inl a)
    with kk e1 show ?thesis by (cases a) (auto simp: keeps_def alloc_def intro: ext_trans)
  next
    case (Inr b)
    obtain vs' m' h' where b: "b = ((vs', m'), h')" by (cases b) auto
    from keeps_result[OF kk] Inr b have a: "list_all (fresh L h') vs'" "memo_ok L h' m'"
      "length vs' = length vs" and e2: "ext L ?h1 h'" by auto
    have g2: "good L h'" using g1 e2 by (rule ext_good)
    have yl: "?y < length h'" using ext_length[OF e2] by simp
    have "list_all (fresh L h') (obj_vals (mk vs'))" using a vals by simp
    from ext_update[OF g2 Ly this] have e3: "ext L h' (h'[?y := mk vs'])" .
    have e: "ext L h (h'[?y := mk vs'])" using e1 e2 e3 by (blast intro: ext_trans)
    have "fresh L (h'[?y := mk vs']) (VRef ?y)" using Ly yl by (simp add: fresh_def)
    moreover have "memo_ok L (h'[?y := mk vs']) m'" using a(2) by (simp add: memo_ok_def)
    ultimately show ?thesis using e Inr b by (simp add: keeps_def alloc_def)
  qed
qed

lemma deepcopy_fuel_keeps:
  "good L h \<Longrightarrow> memo_ok L h m \<Longrightarrow>
   keeps L h (deepcopy_fuel k v m h) (\<lambda>(v', m') h'. fresh L h' v' \<and> memo_ok L h' m')"
proof (induction k arbitrary: v m h)
  case 0
  then show ?case by (simp add: keeps_Inl)
next
  case (Suc k)
  note ca = copy_all_keeps[where f = "deepcopy_fuel k" and L = L, OF Suc.IH]
  show ?case
  proof (cases v)
    case (VRef r)
    show ?thesis
    proof (cases "m r")
      case (Some y)
      with Suc.prems have "fresh L h (VRef y)" by (auto simp: memo_ok_def fresh_def)
      with Some VRef Suc.prems show ?thesis by (simp add: keeps_Inr)
    next
      case None
      show ?thesis
      proof (cases "lookup h r")
        case n: None
        with None VRef Suc.prems show ?thesis by (simp add: keeps_Inl)
      next
        case (Some ob)
        show ?thesis
        proof (cases ob)
          case (PList vs)
          have "keeps L h
             (case alloc h (PList []) of
                (y, h1) \<Rightarrow>
                  (case copy_all (deepcopy_fuel k) vs (m(r \<mapsto> y)) h1 of
                     Inl e \<Rightarrow> Inl e
                   | Inr ((vs', m'), h') \<Rightarrow> Inr ((VRef y, m'), h'[y := PList vs'])))
             (\<lambda>(v', m') h'. fresh L h' v' \<and> memo_ok L h' m')"
            by (rule copy_into_keeps[OF Suc.prems])
               (simp add: obj_vals_def, simp add: obj_vals_def, rule ca)
          then show ?thesis using VRef None Some PList by simp
        next
          case (Inst c attrs)
          have "keeps L h
             (case alloc h (Inst c []) of
                (y, h1) \<Rightarrow>
                  (case copy_all (deepcopy_fuel k) (map snd attrs) (m(r \<mapsto> y)) h1 of
                     Inl e \<Rightarrow> Inl e
                   | Inr ((vs', m'), h') \<Rightarrow>
                       Inr ((VRef y, m'), h'[y := Inst c (zip (map fst attrs) vs')])))
             (\<lambda>(v', m') h'. fresh L h' v' \<and> memo_ok L h' m')"
            by (rule copy_into_keeps[OF Suc.prems, where mk = "\<lambda>vs'. Inst c (zip (map fst attrs) vs')"])
               (simp add: obj_vals_def, simp add: obj_vals_def, rule ca)
          then show ?thesis using VRef None Some Inst by simp
        qed
      qed
    qed
  qed (use Suc.prems in \<open>simp_all add: keeps_Inr\<close>)
qed

lemma deepcopy_keeps:
  assumes "good L h"
  shows "keeps L h (deepcopy v h) (\<lambda>v' h'. fresh L h' v')"
proof -
  have "memo_ok L h Map.empty" by (simp add: memo_ok_def)
  from deepcopy_fuel_keeps[OF assms this, of "Suc (length h)" v]
  show ?thesis
    by (auto simp: deepcopy_def keeps_def split: sum.splits prod.splits)
qed

section \<open>Attribute and list commands keep the objects that exist\<close>


lemma store_in: "(a, x) \<in> set (store k v kvs) \<Longrightarrow> x = v \<or> (a, x) \<in> set kvs"
  by (induction kvs) (auto split: if_splits)

lemma list_all_store:
  assumes "list_all P (map snd kvs)" and "P v"
  shows "list_all P (map snd (store k v kvs))"
  unfolding list_all_iff
proof
  fix x assume "x \<in> set (map snd (store k v kvs))"
  then obtain a where "(a, x) \<in> set (store k v kvs)" by auto
  from store_in[OF this] show "P x"
  proof
    assume "x = v" with assms(2) show ?thesis by simp
  next
    assume "(a, x) \<in> set kvs"
    then have "x \<in> set (map snd kvs)" by force
    with assms(1) show ?thesis unfolding list_all_iff by blast
  qed
qed

lemma lookup_SomeD: "lookup h r = Some ob \<Longrightarrow> r < length h \<and> h ! r = ob"
  by (auto simp: lookup_def split: if_splits)

lemma good_cell:
  assumes "good L h" and "L \<le> r" and "lookup h r = Some ob"
  shows "list_all (fresh L h) (obj_vals ob)"
  using assms by (auto simp: good_def closed_above_def dest!: lookup_SomeD)

lemma ext_store:
  assumes g: "good L h" and r: "L \<le> r" and l: "lookup h r = Some (Inst c attrs)"
    and v: "fresh L h v"
  shows "ext L h (h[r := Inst c (store k v attrs)])"
proof -
  from good_cell[OF g r l] have "list_all (fresh L h) (map snd attrs)"
    by (simp add: obj_vals_def)
  from list_all_store[OF this v] have "list_all (fresh L h) (obj_vals (Inst c (store k v attrs)))"
    by (simp add: obj_vals_def)
  with g r show ?thesis by (rule ext_update)
qed

lemma setattr_keeps:
  assumes g: "good L h" and t: "fresh L h target" and v: "fresh L h v"
  shows "keeps L h (setattr target a v h) (\<lambda>u h'. True)"
proof (cases target)
  case (VRef r)
  with t have r: "L \<le> r" by (simp add: fresh_def)
  show ?thesis
  proof (cases "lookup h r")
    case None
    with VRef g show ?thesis by (simp add: setattr_def keeps_Inl)
  next
    case (Some ob)
    show ?thesis
    proof (cases ob)
      case (PList vs)
      with VRef Some g show ?thesis by (simp add: setattr_def keeps_Inl)
    next
      case (Inst c attrs)
      with Some have l: "lookup h r = Some (Inst c attrs)" by simp
      note e = ext_store[OF g r l v]
      show ?thesis
        using VRef l g e
        by (auto simp: setattr_def keeps_def ext_refl split: option.splits)
    qed
  qed
qed (use g in \<open>simp_all add: setattr_def keeps_Inl\<close>)





lemma py_join_fresh: "py_join sep vs = Inr x \<Longrightarrow> fresh L h x"
  by (auto simp: py_join_def split: option.splits)






lemma keeps_bind_read:
  assumes "good L h" and "\<And>x. m = Inr x \<Longrightarrow> keeps L h (f x h) Q"
  shows "keeps L h (bind_result (read m h) f) Q"
  using assms by (cases m) (auto simp: read_def bind_result_def keeps_Inl)

lemma keeps_bind_good:
  assumes g: "good L h" and k: "keeps L h m Q"
    and f: "\<And>x h'. good L h' \<Longrightarrow> length h \<le> length h' \<Longrightarrow> Q x h' \<Longrightarrow> keeps L h' (f x h') Q'"
  shows "keeps L h (bind_result m f) Q'"
  using k
proof (rule keeps_bind)
  fix x h' assume e: "ext L h h'" and q: "Q x h'"
  from ext_good[OF g e] ext_length[OF e] q show "keeps L h' (f x h') Q'" by (rule f)
qed







section \<open>Batch creation of assay chains keeps the objects that exist\<close>






section \<open>Batch creation of materials: one copy\<close>


lemma good_length: "good (length h) h"
  by (auto simp: good_def closed_above_def)

lemma bind_result_Inr:
  "bind_result m f = Inr y \<Longrightarrow> \<exists>x h'. m = Inr (x, h') \<and> f x h' = Inr y"
  by (cases m) (auto simp: bind_result_def)

lemma read_Inr: "read m h = Inr (x, h') \<Longrightarrow> m = Inr x \<and> h' = h"
  by (cases m) (auto simp: read_def)

lemma deepcopy_Inst:
  assumes l: "lookup h r = Some (Inst c attrs)" and d: "deepcopy (VRef r) h = Inr (v', h2)"
  shows "v' = VRef (length h) \<and> (\<exists>attrs'. lookup h2 (length h) = Some (Inst c attrs'))"
proof -
  let ?L = "length h" and ?h1 = "h @ [Inst c []]"
  let ?m = "Map.empty(r \<mapsto> length h)"
  have g1: "good ?L ?h1"
    using good_length ext_alloc[OF good_length, of "Inst c []" h]
    by (auto intro: ext_good simp: obj_vals_def)
  have mo: "memo_ok ?L ?h1 ?m" by (simp add: memo_ok_def)
  note k = copy_all_keeps[where f = "deepcopy_fuel (length h)" and L = ?L,
      OF deepcopy_fuel_keeps g1 mo, of "map snd attrs"]
  from d l obtain vs' m' h' where
    c: "copy_all (deepcopy_fuel (length h)) (map snd attrs) ?m ?h1 = Inr ((vs', m'), h')"
    and v: "v' = VRef ?L" and h2: "h2 = h'[?L := Inst c (zip (map fst attrs) vs')]"
    by (auto simp: deepcopy_def alloc_def split: sum.splits prod.splits)
  from keeps_result[OF k c] have "ext ?L ?h1 h'" by simp
  from ext_length[OF this] have "?L < length h'" by simp
  then show ?thesis using v h2 by (simp add: lookup_def)
qed

lemma material_class_no_name_property:
  assumes "list_ex (\<lambda>d. d \<in> set [Source, Sample, Material]) (mro c)"
  shows "find_property c ''name'' = None"
  using assms by (cases c) (simp_all add: find_property_def class_property_def)

lemma isinstance_VRef:
  "isinstance h v cs \<Longrightarrow>
   \<exists>r c attrs. v = VRef r \<and> lookup h r = Some (Inst c attrs)
      \<and> list_ex (\<lambda>d. d \<in> set cs) (mro c)"
  by (cases v) (auto simp: isinstance_def split: option.splits obj.splits)

lemma setattr_plain:
  assumes "lookup h y = Some (Inst c attrs)" and "find_property c a = None"
  shows "setattr (VRef y) a v h = Inr ((), h[y := Inst c (store a v attrs)])"
    and "getattr (h[y := Inst c (store a v attrs)]) (VRef y) a = Inr v"
    and "lookup (h[y := Inst c (store a v attrs)]) y = Some (Inst c (store a v attrs))"
  using assms lookup_SomeD[OF assms(1)]
  by (simp_all add: setattr_def getattr_def lookup_def read_slot_store_same)

lemma py_join_two:
  "py_join sep [a, b] = Inr z \<Longrightarrow> \<exists>s t. a = VStr s \<and> b = VStr t \<and> z = VStr (s @ sep @ t)"
  by (cases a; cases b) (auto simp: py_join_def)

lemma create_material_result:
  assumes i: "isinstance h material [Source, Sample, Material]"
    and c: "create_material material x acc h = Inr (acc', h2)"
  shows "acc' = acc @ [VRef (length h)] \<and> length h < length h2
       \<and> isinstance h2 (VRef (length h)) [Source, Sample, Material]
       \<and> (\<exists>nm. getattr h material ''name'' = Inr (VStr nm)
              \<and> getattr h2 (VRef (length h)) ''name'' = Inr (VStr (nm @ ''-'' @ str_nat x)))"
proof -
  from isinstance_VRef[OF i] obtain r c attrs where m: "material = VRef r"
    and l: "lookup h r = Some (Inst c attrs)"
    and cl: "list_ex (\<lambda>d. d \<in> set [Source, Sample, Material]) (mro c)" by blast
  from c obtain new_obj h1 name new_name u h3 where
    d: "deepcopy material h = Inr (new_obj, h1)"
    and n: "getattr h1 material ''name'' = Inr name"
    and j: "py_join ''-'' [name, VStr (str_nat x)] = Inr new_name"
    and s: "setattr new_obj ''name'' new_name h1 = Inr (u, h3)"
    and r: "acc' = acc @ [new_obj]" "h2 = h3"
    unfolding create_material_def
    by (auto dest!: bind_result_Inr read_Inr)
  from deepcopy_Inst[OF l d[unfolded m]] obtain attrs' where
    no: "new_obj = VRef (length h)" and l1: "lookup h1 (length h) = Some (Inst c attrs')"
    by blast
  from py_join_two[OF j] obtain nm where nm: "name = VStr nm"
    and nn: "new_name = VStr (nm @ ''-'' @ str_nat x)" by auto
  note np = material_class_no_name_property[OF cl]
  from setattr_plain[OF l1 np, of new_name] s no
  have h3: "h3 = h1[length h := Inst c (store ''name'' new_name attrs')]"
    and ga: "getattr h3 (VRef (length h)) ''name'' = Inr new_name"
    and l3: "lookup h3 (length h) = Some (Inst c (store ''name'' new_name attrs'))"
    by simp_all
  from deepcopy_keeps[OF good_length, of h material] d
  have e: "ext (length h) h h1" by (simp add: keeps_def)
  from lookup_SomeD[OF l] have rl: "r < length h" and hr: "h ! r = Inst c attrs" by simp_all
  from e rl have "h1 ! r = h ! r" by (simp add: ext_def)
  with rl hr ext_length[OF e] have "lookup h1 r = Some (Inst c attrs)"
    by (simp add: lookup_def)
  with l np have "getattr h1 material ''name'' = getattr h material ''name''"
    by (simp add: getattr_def m)
  with n nm have g0: "getattr h material ''name'' = Inr (VStr nm)" by simp
  from lookup_SomeD[OF l3] have "length h < length h3" by simp
  moreover have "isinstance h3 (VRef (length h)) [Source, Sample, Material]"
    using l3 cl by (simp add: isinstance_def)
  ultimately show ?thesis using r no ga nn g0 by simp
qed

lemma create_material_keeps:
  assumes g: "good L h"
  shows "keeps L h (create_material material x acc h) (\<lambda>acc' h'. True)"
  unfolding create_material_def
proof (rule keeps_bind_good[OF g deepcopy_keeps[OF g]])
  fix c h1 assume g1: "good L h1" and c: "fresh L h1 c"
  show "keeps L h1 (bind_result (read (getattr h1 material ''name'') h1) (\<lambda>name h.
          bind_result (read (py_join ''-'' [name, VStr (str_nat x)]) h) (\<lambda>new_name h.
          bind_result (setattr c ''name'' new_name h) (\<lambda>u h. Inr (acc @ [c], h)))))
        (\<lambda>acc' h'. True)"
  proof (rule keeps_bind_read[OF g1])
    fix name
    show "keeps L h1 (bind_result (read (py_join ''-'' [name, VStr (str_nat x)]) h1) (\<lambda>new_name h.
          bind_result (setattr c ''name'' new_name h) (\<lambda>u h. Inr (acc @ [c], h))))
        (\<lambda>acc' h'. True)"
    proof (rule keeps_bind_read[OF g1])
      fix new_name assume "py_join ''-'' [name, VStr (str_nat x)] = Inr new_name"
      then have n: "fresh L h1 new_name" by (rule py_join_fresh)
      show "keeps L h1 (bind_result (setattr c ''name'' new_name h1) (\<lambda>u h. Inr (acc @ [c], h)))
              (\<lambda>acc' h'. True)"
        by (rule keeps_bind_good[OF g1 setattr_keeps[OF g1 c n]]) (simp add: keeps_Inr)
    qed
  qed
qed


section \<open>Batch creation of materials: the loop\<close>


lemma ext_lookup:
  assumes "ext L h h'" and "r < L" and "r < length h"
  shows "lookup h' r = lookup h r"
  using assms by (auto simp: ext_def lookup_def)

lemma isinstance_lookup_eq:
  "lookup h' r = lookup h r \<Longrightarrow> isinstance h' (VRef r) cs = isinstance h (VRef r) cs"
  by (simp add: isinstance_def)

lemma getattr_plain_eq:
  assumes "lookup h' r = lookup h r" and "lookup h r = Some (Inst c attrs)"
    and "find_property c a = None"
  shows "getattr h' (VRef r) a = getattr h (VRef r) a"
  using assms by (simp add: getattr_def)

lemma reach_region:
  assumes c: "closed_above q h1" and e: "ext (length h1) h1 h'" and a: "a \<in> reach h' (VRef q)"
    and q: "q < length h1"
  shows "q \<le> a \<and> a < length h1"
  using a
proof (induction rule: reach.induct)
  case (root r)
  with q show ?case by simp
next
  case (step r b)
  from step.IH e have "h' ! r = h1 ! r" by (simp add: ext_def)
  with step.hyps(2) have "VRef b \<in> set (obj_vals (h1 ! r))" by simp
  moreover from c step.IH have "list_all (fresh q h1) (obj_vals (h1 ! r))"
    by (simp add: closed_above_def)
  ultimately have "fresh q h1 (VRef b)" by (simp add: list_all_iff)
  then show ?case by (simp add: fresh_def)
qed

lemma wf_heap_nth:
  "wf_heap h = (\<forall>r<length h. list_all (val_ok h) (obj_vals (h ! r)))"
  by (simp add: wf_heap_def list_all_length)


lemma fresh_lower: "fresh L' h v \<Longrightarrow> L \<le> L' \<Longrightarrow> fresh L h v"
  by (cases v) (auto simp: fresh_def)

lemma ext_step:
  assumes e1: "ext L h h1" and e2: "ext (length h1) h1 h'" and L: "L \<le> length h"
  shows "ext L h h'"
proof -
  have l1: "length h \<le> length h1" and l2: "length h1 \<le> length h'"
    using e1 e2 by (simp_all add: ext_def)
  have old: "h' ! r = h ! r" if "r < L" for r
  proof -
    from that L l1 have "r < length h1" by simp
    with e2 have "h' ! r = h1 ! r" by (simp add: ext_def)
    with e1 that show ?thesis by (simp add: ext_def)
  qed
  have cl: "list_all (fresh L h') (obj_vals (h' ! r))" if r: "L \<le> r" "r < length h'" for r
  proof (cases "r < length h1")
    case True
    with e2 have "h' ! r = h1 ! r" by (simp add: ext_def)
    moreover from e1 r True have "list_all (fresh L h1) (obj_vals (h1 ! r))"
      by (simp add: ext_def closed_above_def)
    ultimately show ?thesis using l2 by (simp add: list_all_fresh_mono)
  next
    case False
    with e2 r have "list_all (fresh (length h1) h') (obj_vals (h' ! r))"
      by (simp add: ext_def closed_above_def)
    moreover have "L \<le> length h1" using L l1 by simp
    ultimately show ?thesis by (auto simp: list_all_iff intro: fresh_lower)
  qed
  from l1 l2 old cl show ?thesis by (simp add: ext_def closed_above_def)
qed

lemma for_each_create_material:
  assumes "isinstance h material [Source, Sample, Material]"
    and "for_each (create_material material) xs acc h = Inr (acc', h')"
  shows "\<exists>news. acc' = acc @ map VRef news \<and> length news = length xs
       \<and> ext (length h) h h'
       \<and> (\<forall>q\<in>set news. length h \<le> q \<and> q < length h')
       \<and> sorted_wrt (<) news
       \<and> (\<forall>q\<in>set news. \<forall>a\<in>reach h' (VRef q). q \<le> a \<and> (\<forall>q'\<in>set news. q < q' \<longrightarrow> a < q'))
       \<and> (\<forall>nm. getattr h material ''name'' = Inr (VStr nm) \<longrightarrow>
            (\<forall>i<length xs. getattr h' (VRef (news ! i)) ''name''
                               = Inr (VStr (nm @ ''-'' @ str_nat (xs ! i)))))"
  using assms
proof (induction xs arbitrary: acc h)
  case Nil
  then show ?case by (simp add: ext_refl good_length)
next
  case (Cons x xs)
  from Cons.prems(2) obtain acc1 h1 where
    c: "create_material material x acc h = Inr (acc1, h1)"
    and r: "for_each (create_material material) xs acc1 h1 = Inr (acc', h')"
    by (auto split: sum.splits)
  let ?q0 = "length h"
  from create_material_result[OF Cons.prems(1) c] obtain nm0 where
    acc1: "acc1 = acc @ [VRef ?q0]" and len1: "?q0 < length h1"
    and i1: "isinstance h1 (VRef ?q0) [Source, Sample, Material]"
    and n0: "getattr h material ''name'' = Inr (VStr nm0)"
    and n1: "getattr h1 (VRef ?q0) ''name'' = Inr (VStr (nm0 @ ''-'' @ str_nat x))"
    by blast
  from create_material_keeps[OF good_length, where material = material and x = x and acc = acc and h = h] c
  have e1: "ext ?q0 h h1" by (simp add: keeps_def)
  then have ca: "closed_above ?q0 h1" by (simp add: ext_def)
  from isinstance_VRef[OF Cons.prems(1)] obtain rm cm am where m: "material = VRef rm"
    and lm: "lookup h rm = Some (Inst cm am)"
    and clm: "list_ex (\<lambda>d. d \<in> set [Source, Sample, Material]) (mro cm)" by blast
  from lookup_SomeD[OF lm] have rml: "rm < length h" by simp
  have lm1: "lookup h1 rm = lookup h rm" using e1 rml rml by (rule ext_lookup)
  have im1: "isinstance h1 material [Source, Sample, Material]"
    using Cons.prems(1) isinstance_lookup_eq[OF lm1] by (simp add: m)
  have gm1: "getattr h1 material ''name'' = getattr h material ''name''"
    unfolding m using lm1 lm material_class_no_name_property[OF clm] by (rule getattr_plain_eq)
  from Cons.IH[OF im1 r] obtain news where
    a: "acc' = acc1 @ map VRef news" and l: "length news = length xs"
    and e: "ext (length h1) h1 h'"
    and b: "\<forall>q\<in>set news. length h1 \<le> q \<and> q < length h'"
    and s: "sorted_wrt (<) news"
    and p: "\<forall>q\<in>set news. \<forall>a\<in>reach h' (VRef q). q \<le> a \<and> (\<forall>q'\<in>set news. q < q' \<longrightarrow> a < q')"
    and n: "\<forall>nm. getattr h1 material ''name'' = Inr (VStr nm) \<longrightarrow>
            (\<forall>i<length xs. getattr h' (VRef (news ! i)) ''name''
                               = Inr (VStr (nm @ ''-'' @ str_nat (xs ! i))))"
    by blast
  have len: "length h1 \<le> length h'" using e by (rule ext_length)
  have e0: "ext ?q0 h h'" using e1 e by (rule ext_step) simp
  let ?news = "?q0 # news"
  have A: "acc' = acc @ map VRef ?news" using a acc1 by simp
  have B: "length ?news = length (x # xs)" using l by simp
  have C: "\<forall>q\<in>set ?news. ?q0 \<le> q \<and> q < length h'"
    using b len1 len by auto
  have D: "sorted_wrt (<) ?news" using s b len1 by auto
  have r0: "?q0 \<le> a \<and> a < length h1" if "a \<in> reach h' (VRef ?q0)" for a
    using ca e that len1 by (rule reach_region)
  have E: "\<forall>q\<in>set ?news. \<forall>a\<in>reach h' (VRef q). q \<le> a \<and> (\<forall>q'\<in>set ?news. q < q' \<longrightarrow> a < q')"
  proof (intro ballI)
    fix q a assume q: "q \<in> set ?news" and a: "a \<in> reach h' (VRef q)"
    show "q \<le> a \<and> (\<forall>q'\<in>set ?news. q < q' \<longrightarrow> a < q')"
    proof (cases "q = ?q0")
      case True
      from r0 a True have "?q0 \<le> a" "a < length h1" by simp_all
      with b True show ?thesis by auto
    next
      case False
      with q have qn: "q \<in> set news" by simp
      with p a have 1: "q \<le> a" and 2: "\<forall>q'\<in>set news. q < q' \<longrightarrow> a < q'" by blast+
      from b qn len1 have "?q0 < q" by auto
      with 1 2 show ?thesis by auto
    qed
  qed
  have F: "\<forall>nm. getattr h material ''name'' = Inr (VStr nm) \<longrightarrow>
            (\<forall>i<length (x # xs). getattr h' (VRef (?news ! i)) ''name''
                               = Inr (VStr (nm @ ''-'' @ str_nat ((x # xs) ! i))))"
  proof (intro allI impI)
    fix nm i assume nm: "getattr h material ''name'' = Inr (VStr nm)" and i: "i < length (x # xs)"
    from nm n0 have eq: "nm0 = nm" by simp
    show "getattr h' (VRef (?news ! i)) ''name'' = Inr (VStr (nm @ ''-'' @ str_nat ((x # xs) ! i)))"
    proof (cases i)
      case 0
      from isinstance_VRef[OF i1] obtain c0 a0 where l0: "lookup h1 ?q0 = Some (Inst c0 a0)"
        and cl0: "list_ex (\<lambda>d. d \<in> set [Source, Sample, Material]) (mro c0)" by auto
      have "lookup h' ?q0 = lookup h1 ?q0" using e len1 len1 by (rule ext_lookup)
      from getattr_plain_eq[OF this l0 material_class_no_name_property[OF cl0]] n1 eq 0
      show ?thesis by simp
    next
      case (Suc j)
      with i have "j < length xs" by simp
      with n gm1 nm Suc show ?thesis by simp
    qed
  qed
  from A B C D E F e0 show ?case by blast
qed

section \<open>Deep copies return\<close>


lemma copy_ready_ext:
  assumes r: "copy_ready L k m h" and e: "ext L h h'" and mo: "memo_ok L h' m'"
    and d: "dom m \<subseteq> dom m'" "dom m' \<subseteq> {..<L}"
  shows "copy_ready L k m' h'"
proof -
  from r have g: "good L h" and old: "\<forall>r<L. list_all (below L) (obj_vals (h ! r))"
    and c: "card ({..<L} - dom m) < k" by (simp_all add: copy_ready_def)
  have "{..<L} - dom m' \<subseteq> {..<L} - dom m" using d by auto
  then have "card ({..<L} - dom m') \<le> card ({..<L} - dom m)"
    by (intro card_mono) auto
  with c have c': "card ({..<L} - dom m') < k" by simp
  have "\<forall>r<L. list_all (below L) (obj_vals (h' ! r))" using old e by (simp add: ext_def)
  with ext_good[OF g e] mo d c' show ?thesis by (simp add: copy_ready_def)
qed

lemma copy_all_succeeds:
  assumes f: "\<And>v m h. copy_ready L k m h \<Longrightarrow> below L v \<Longrightarrow>
                \<exists>v' m' h'. f v m h = Inr ((v', m'), h') \<and> dom m \<subseteq> dom m' \<and> dom m' \<subseteq> {..<L}"
    and fk: "\<And>v m h. good L h \<Longrightarrow> memo_ok L h m \<Longrightarrow>
                keeps L h (f v m h) (\<lambda>(v', m') h'. fresh L h' v' \<and> memo_ok L h' m')"
    and r: "copy_ready L k m h" and vs: "list_all (below L) vs"
  shows "\<exists>vs' m' h'. copy_all f vs m h = Inr ((vs', m'), h') \<and> dom m \<subseteq> dom m' \<and> dom m' \<subseteq> {..<L}"
  using r vs
proof (induction vs arbitrary: m h)
  case Nil
  then show ?case by (simp add: copy_ready_def)
next
  case (Cons v vs)
  from Cons.prems(2) have v: "below L v" and vs: "list_all (below L) vs" by simp_all
  from f[OF Cons.prems(1) v] obtain v' m1 h1 where
    1: "f v m h = Inr ((v', m1), h1)" and d1: "dom m \<subseteq> dom m1" "dom m1 \<subseteq> {..<L}" by blast
  from Cons.prems(1) have g: "good L h" and mo: "memo_ok L h m" by (simp_all add: copy_ready_def)
  from keeps_result[OF fk[OF g mo] 1] have e1: "ext L h h1" and mo1: "memo_ok L h1 m1" by auto
  from copy_ready_ext[OF Cons.prems(1) e1 mo1 d1] have r1: "copy_ready L k m1 h1" .
  from Cons.IH[OF r1 vs] obtain vs' m2 h2 where
    2: "copy_all f vs m1 h1 = Inr ((vs', m2), h2)" and d2: "dom m1 \<subseteq> dom m2" "dom m2 \<subseteq> {..<L}"
    by blast
  from 1 2 d1 d2 show ?case by auto
qed

lemma deepcopy_fuel_succeeds:
  "copy_ready L k m h \<Longrightarrow> below L v \<Longrightarrow>
   \<exists>v' m' h'. deepcopy_fuel k v m h = Inr ((v', m'), h') \<and> dom m \<subseteq> dom m' \<and> dom m' \<subseteq> {..<L}"
proof (induction k arbitrary: v m h)
  case 0
  then show ?case by (simp add: copy_ready_def)
next
  case (Suc k)
  from Suc.prems(1) have g: "good L h" and mo: "memo_ok L h m"
    and old: "\<forall>r<L. list_all (below L) (obj_vals (h ! r))"
    and dm: "dom m \<subseteq> {..<L}" and cd: "card ({..<L} - dom m) < Suc k"
    by (simp_all add: copy_ready_def)
  show ?case
  proof (cases v)
    case (VRef r)
    with Suc.prems(2) have rL: "r < L" by (simp add: below_def)
    show ?thesis
    proof (cases "m r")
      case (Some y)
      with VRef dm show ?thesis by simp
    next
      case None
      from g rL have rl: "r < length h" by (simp add: good_def)
      then have l: "lookup h r = Some (h ! r)" by (simp add: lookup_def)
      let ?y = "length h"
      let ?m1 = "m(r \<mapsto> ?y)"
      have mem: "r \<in> {..<L} - dom m" using rL None by auto
      have "{..<L} - dom ?m1 = ({..<L} - dom m) - {r}" by auto
      then have "card ({..<L} - dom ?m1) = card ({..<L} - dom m) - 1"
        using mem by simp
      moreover have "card ({..<L} - dom m) \<ge> 1"
        using mem by (metis One_nat_def Suc_leI card_gt_0_iff empty_iff finite_Diff finite_lessThan)
      ultimately have c1: "card ({..<L} - dom ?m1) < k" using cd by simp
      have Ly: "L \<le> ?y" using g by (simp add: good_def)
      have ready: "copy_ready L k ?m1 (h @ [ob0])" if "obj_vals ob0 = []" for ob0
      proof -
        have e: "ext L h (h @ [ob0])" using g that by (rule ext_alloc)
        have "memo_ok L (h @ [ob0]) ?m1" using mo Ly by (auto simp: memo_ok_def less_Suc_eq)
        moreover have "\<forall>q<L. list_all (below L) (obj_vals ((h @ [ob0]) ! q))"
          using old Ly by (simp add: nth_append)
        moreover have "dom ?m1 \<subseteq> {..<L}" using dm rL by auto
        ultimately show ?thesis using ext_good[OF g e] c1 by (simp add: copy_ready_def)
      qed
      from old rL have ch: "list_all (below L) (obj_vals (h ! r))" by simp
      have run: "\<exists>vs' m' h'. copy_all (deepcopy_fuel k) vs ?m1 (h @ [ob0]) = Inr ((vs', m'), h')
                   \<and> dom ?m1 \<subseteq> dom m' \<and> dom m' \<subseteq> {..<L}"
        if "obj_vals ob0 = []" and "list_all (below L) vs" for ob0 vs
        using Suc.IH deepcopy_fuel_keeps ready[OF that(1)] that(2)
        by (rule copy_all_succeeds)
      show ?thesis
      proof (cases "h ! r")
        case (PList vs)
        with ch have "list_all (below L) vs" by (simp add: obj_vals_def)
        from run[OF _ this, of "PList []"] obtain vs' m' h' where
          "copy_all (deepcopy_fuel k) vs ?m1 (h @ [PList []]) = Inr ((vs', m'), h')"
          "dom ?m1 \<subseteq> dom m'" "dom m' \<subseteq> {..<L}" by (auto simp: obj_vals_def)
        with VRef None l PList show ?thesis by (auto simp: alloc_def)
      next
        case (Inst c attrs)
        with ch have "list_all (below L) (map snd attrs)" by (simp add: obj_vals_def)
        from run[OF _ this, of "Inst c []"] obtain vs' m' h' where
          "copy_all (deepcopy_fuel k) (map snd attrs) ?m1 (h @ [Inst c []]) = Inr ((vs', m'), h')"
          "dom ?m1 \<subseteq> dom m'" "dom m' \<subseteq> {..<L}" by (auto simp: obj_vals_def)
        with VRef None l Inst show ?thesis by (auto simp: alloc_def)
      qed
    qed
  qed (use dm in simp_all)
qed

lemma wf_heap_below:
  "wf_heap h \<Longrightarrow> \<forall>r<length h. list_all (below (length h)) (obj_vals (h ! r))"
  by (auto simp: wf_heap_nth list_all_iff val_ok_def below_def split: val.splits)

lemma deepcopy_succeeds:
  assumes w: "wf_heap h" and v: "val_ok h v"
  shows "\<exists>v' h'. deepcopy v h = Inr (v', h')"
proof -
  have "copy_ready (length h) (Suc (length h)) Map.empty h"
    using wf_heap_below[OF w] good_length[of h]
    by (simp add: copy_ready_def memo_ok_def)
  moreover have "below (length h) v" using v by (simp add: val_ok_def below_def)
  ultimately obtain v' m' h' where
    "deepcopy_fuel (Suc (length h)) v Map.empty h = Inr ((v', m'), h')"
    using deepcopy_fuel_succeeds by blast
  then show ?thesis by (simp add: deepcopy_def)
qed

section \<open>Batch creation of materials returns\<close>


lemma wf_heap_ext:
  assumes w: "wf_heap h" and e: "ext (length h) h h'"
  shows "wf_heap h'"
  unfolding wf_heap_nth
proof (intro allI impI)
  fix r assume r: "r < length h'"
  have len: "length h \<le> length h'" using e by (rule ext_length)
  show "list_all (val_ok h') (obj_vals (h' ! r))"
  proof (cases "r < length h")
    case True
    with e have "h' ! r = h ! r" by (simp add: ext_def)
    moreover from w True have "list_all (val_ok h) (obj_vals (h ! r))" by (simp add: wf_heap_nth)
    ultimately show ?thesis using len
      by (auto simp: list_all_iff val_ok_def split: val.splits)
  next
    case False
    with e r have "list_all (fresh (length h) h') (obj_vals (h' ! r))"
      by (simp add: ext_def closed_above_def)
    then show ?thesis by (auto simp: list_all_iff val_ok_def fresh_def split: val.splits)
  qed
qed

lemma create_material_succeeds:
  assumes w: "wf_heap h" and i: "isinstance h material [Source, Sample, Material]"
    and n: "getattr h material ''name'' = Inr (VStr nm)"
  shows "\<exists>acc' h2. create_material material x acc h = Inr (acc', h2)"
proof -
  from isinstance_VRef[OF i] obtain r c attrs where m: "material = VRef r"
    and l: "lookup h r = Some (Inst c attrs)"
    and cl: "list_ex (\<lambda>d. d \<in> set [Source, Sample, Material]) (mro c)" by blast
  from lookup_SomeD[OF l] have rl: "r < length h" by simp
  then have "val_ok h material" by (simp add: m val_ok_def)
  from deepcopy_succeeds[OF w this] obtain new_obj h1 where
    d: "deepcopy material h = Inr (new_obj, h1)" by blast
  from deepcopy_Inst[OF l d[unfolded m]] obtain attrs' where
    no: "new_obj = VRef (length h)" and l1: "lookup h1 (length h) = Some (Inst c attrs')"
    by blast
  from deepcopy_keeps[OF good_length, of h material] d
  have e: "ext (length h) h h1" by (simp add: keeps_def)
  have "lookup h1 r = lookup h r" using e rl rl by (rule ext_lookup)
  from getattr_plain_eq[OF this l material_class_no_name_property[OF cl]] n
  have n1: "getattr h1 material ''name'' = Inr (VStr nm)" by (simp add: m)
  have j: "py_join ''-'' [VStr nm, VStr (str_nat x)] = Inr (VStr (nm @ ''-'' @ str_nat x))"
    by (simp add: py_join_def)
  note s = setattr_plain(1)[OF l1 material_class_no_name_property[OF cl],
      of "VStr (nm @ ''-'' @ str_nat x)"]
  show ?thesis
    using s by (simp add: create_material_def d bind_result_def read_def n1 j no)
qed

lemma for_each_create_material_succeeds:
  assumes "wf_heap h" and "isinstance h material [Source, Sample, Material]"
    and "getattr h material ''name'' = Inr (VStr nm)"
  shows "\<exists>acc' h'. for_each (create_material material) xs acc h = Inr (acc', h')"
  using assms
proof (induction xs arbitrary: acc h)
  case Nil
  then show ?case by simp
next
  case (Cons x xs)
  from create_material_succeeds[OF Cons.prems] obtain acc1 h1 where
    c: "create_material material x acc h = Inr (acc1, h1)" by blast
  from create_material_keeps[OF good_length, where material = material and x = x and acc = acc and h = h] c
  have e1: "ext (length h) h h1" by (simp add: keeps_def)
  from wf_heap_ext[OF Cons.prems(1) e1] have w1: "wf_heap h1" .
  from isinstance_VRef[OF Cons.prems(2)] obtain rm cm am where m: "material = VRef rm"
    and lm: "lookup h rm = Some (Inst cm am)"
    and clm: "list_ex (\<lambda>d. d \<in> set [Source, Sample, Material]) (mro cm)" by blast
  from lookup_SomeD[OF lm] have rml: "rm < length h" by simp
  have lm1: "lookup h1 rm = lookup h rm" using e1 rml rml by (rule ext_lookup)
  have im1: "isinstance h1 material [Source, Sample, Material]"
    using Cons.prems(2) isinstance_lookup_eq[OF lm1] by (simp add: m)
  have gm1: "getattr h1 material ''name'' = Inr (VStr nm)"
    using getattr_plain_eq[OF lm1 lm material_class_no_name_property[OF clm]] Cons.prems(3)
    by (simp add: m)
  from Cons.IH[OF w1 im1 gm1] obtain acc' h' where
    "for_each (create_material material) xs acc1 h1 = Inr (acc', h')" by blast
  with c show ?case by simp
qed

lemma digit_value_digit_char:
  assumes "d < 10"
  shows "digit_value (digit_char d) = d"
proof -
  from assms have "d \<in> {0, 1, 2, 3, 4, 5, 6, 7, 8, 9}" by auto
  then show ?thesis by (auto simp: digit_char_def digit_value_def)
qed

lemma decimal_value_str_nat: "decimal_value (str_nat n) = n"
proof (induction n rule: str_nat.induct)
  case (1 n)
  show ?case
  proof (cases "n < 10")
    case True
    then show ?thesis
      by (subst str_nat.simps) (simp add: decimal_value_def digit_value_digit_char)
  next
    case False
    with 1 have "decimal_value (str_nat (n div 10)) = n div 10" by simp
    with False show ?thesis
      by (subst str_nat.simps) (simp add: decimal_value_def digit_value_digit_char)
  qed
qed

text \<open>
  Claim C5, as amended. On a heap without dangling references, for a prototype that is an instance of
  \<^verbatim>\<open>Source\<close>, \<^verbatim>\<open>Sample\<close> or \<^verbatim>\<open>Material\<close> (or of a subclass) whose name is a text, and for
  \<open>n \<ge> 0\<close>, \<^verbatim>\<open>batch_create_materials\<close> returns a list of \<open>n\<close> objects; the name of the
  \<open>i\<close>-th is the name of the prototype followed by \<^verbatim>\<open>-\<close> and the decimal digits of \<open>i\<close>
  (\<open>str_nat i\<close>, which reads back as \<open>i\<close> by lemma \<open>decimal_value_str_nat\<close>);
  the objects are new (allocated by the call), pairwise distinct and distinct from the
  prototype.
\<close>

theorem batch_create_materials_names:
  assumes "wf_heap h"
    and "isinstance h material [Source, Sample, Material]"
    and "getattr h material ''name'' = Inr (VStr nm)"
    and "0 \<le> n"
  shows "\<exists>copies h'. batch_create_materials material n h = Inr (map VRef copies, h')
       \<and> int (length copies) = n
       \<and> (\<forall>i<length copies. getattr h' (VRef (copies ! i)) ''name''
                                 = Inr (VStr (nm @ ''-'' @ str_nat i)))
       \<and> distinct copies
       \<and> material \<notin> set (map VRef copies)
       \<and> (\<forall>q\<in>set copies. length h \<le> q \<and> q < length h')"
proof -
  from for_each_create_material_succeeds[OF assms(1,2,3)] obtain acc' h' where
    r: "for_each (create_material material) [0..<nat n] [] h = Inr (acc', h')" by blast
  from for_each_create_material[OF assms(2) r] obtain news where
    a: "acc' = map VRef news" and l: "length news = length [0..<nat n]"
    and b: "\<forall>q\<in>set news. length h \<le> q \<and> q < length h'"
    and s: "sorted_wrt (<) news"
    and nmz: "\<forall>nm. getattr h material ''name'' = Inr (VStr nm) \<longrightarrow>
            (\<forall>i<length [0..<nat n]. getattr h' (VRef (news ! i)) ''name''
                               = Inr (VStr (nm @ ''-'' @ str_nat ([0..<nat n] ! i))))"
    by auto
  have 1: "batch_create_materials material n h = Inr (map VRef news, h')"
    using assms(2) r a by (simp add: batch_create_materials_def)
  have 2: "int (length news) = n" using l assms(4) by simp
  have 3: "\<forall>i<length news. getattr h' (VRef (news ! i)) ''name'' = Inr (VStr (nm @ ''-'' @ str_nat i))"
    using nmz assms(3) l by simp
  have 4: "distinct news" using s by (simp add: strict_sorted_iff)
  from isinstance_VRef[OF assms(2)] obtain rm cm am where m: "material = VRef rm"
    and lm: "lookup h rm = Some (Inst cm am)" by blast
  from lookup_SomeD[OF lm] have "rm < length h" by simp
  with b have 5: "material \<notin> set (map VRef news)" by (auto simp: m)
  from 1 2 3 4 5 b show ?thesis by blast
qed


theorem batch_create_materials_names_witness:
  "wf_heap source_example_heap
   \<and> isinstance source_example_heap (VRef 0) [Source, Sample, Material]
   \<and> getattr source_example_heap (VRef 0) ''name'' = Inr (VStr ''S'')
   \<and> (0::int) \<le> 3
   \<and> batch_create_materials (VRef 0) 3 source_example_heap
       = Inr ([VRef 4, VRef 8, VRef 12],
              final_heap (batch_create_materials (VRef 0) 3 source_example_heap))
   \<and> getattr (final_heap (batch_create_materials (VRef 0) 3 source_example_heap)) (VRef 4) ''name''
       = Inr (VStr ''S-0'')
   \<and> getattr (final_heap (batch_create_materials (VRef 0) 3 source_example_heap)) (VRef 8) ''name''
       = Inr (VStr ''S-1'')
   \<and> getattr (final_heap (batch_create_materials (VRef 0) 3 source_example_heap)) (VRef 12) ''name''
       = Inr (VStr ''S-2'')
   \<and> distinct [4, 8, 12 :: nat]"
proof -
  have a: "wf_heap source_example_heap" by code_simp
  have b: "isinstance source_example_heap (VRef 0) [Source, Sample, Material]" by code_simp
  have c: "getattr source_example_heap (VRef 0) ''name'' = Inr (VStr ''S'')" by code_simp
  have d: "(0::int) \<le> 3" by simp
  have e: "batch_create_materials (VRef 0) 3 source_example_heap
       = Inr ([VRef 4, VRef 8, VRef 12],
              final_heap (batch_create_materials (VRef 0) 3 source_example_heap))"
    by code_simp
  have s: "str_nat 0 = ''0''" "str_nat 1 = ''1''" "str_nat 2 = ''2''" by code_simp+
  from batch_create_materials_names[OF a b c d] obtain copies h' where
    r: "batch_create_materials (VRef 0) 3 source_example_heap = Inr (map VRef copies, h')"
    and n: "\<forall>i<length copies. getattr h' (VRef (copies ! i)) ''name''
                                 = Inr (VStr (''S'' @ ''-'' @ str_nat i))"
    and l: "int (length copies) = 3"
    by blast
  from r e have h': "h' = final_heap (batch_create_materials (VRef 0) 3 source_example_heap)"
    and cs: "map VRef copies = [VRef 4, VRef 8, VRef 12]" by simp_all
  from cs have copies: "copies = [4, 8, 12]" by (auto simp: map_eq_Cons_conv)
  from n[rule_format, of 0] n[rule_format, of 1] n[rule_format, of 2] copies s
  have "getattr h' (VRef 4) ''name'' = Inr (VStr ''S-0'')"
    "getattr h' (VRef 8) ''name'' = Inr (VStr ''S-1'')"
    "getattr h' (VRef 12) ''name'' = Inr (VStr ''S-2'')"
    by simp_all
  with a b c d e h' show ?thesis by simp
qed

text \<open>
  Claim C5 as stated fails for a prototype whose name is not a text: for the source
  constructed with \<^verbatim>\<open>name=None\<close>, the call with \<open>n = 1\<close> copies the prototype and then raises
  a type error when it joins the name with the index, so no list is returned.
\<close>

theorem batch_create_materials_names_counterexample:
  "isinstance unnamed_source_heap (VRef 0) [Source, Sample, Material]
   \<and> getattr unnamed_source_heap (VRef 0) ''name'' = Inr VNone
   \<and> batch_create_materials (VRef 0) 1 unnamed_source_heap
       = Inl (TypeError,
              unnamed_source_heap @
              [Inst Source [(''_Commentable__comments'', VNone), (''id'', VStr []),
                            (''name'', VNone), (''characteristics'', VRef 3)],
               PList []])"
  by code_simp

text \<open>
  Claim C7. For an argument that is not an instance of \<^verbatim>\<open>Source\<close>, \<^verbatim>\<open>Sample\<close> or \<^verbatim>\<open>Material\<close>
  (such as \<^verbatim>\<open>None\<close>, a data file or a process) and for every \<open>n\<close>, \<^verbatim>\<open>batch_create_materials\<close>
  returns the empty list, raises nothing and leaves the heap as it is.
\<close>

theorem batch_create_materials_unsupported:
  assumes "\<not> isinstance h material [Source, Sample, Material]"
  shows "batch_create_materials material n h = Inr ([], h)"
  using assms by (simp add: batch_create_materials_def)

theorem batch_create_materials_unsupported_witness:
  "\<not> isinstance outputs_example_heap VNone [Source, Sample, Material]
   \<and> batch_create_materials VNone 3 outputs_example_heap = Inr ([], outputs_example_heap)
   \<and> \<not> isinstance outputs_example_heap (VRef 7) [Source, Sample, Material]
   \<and> isinstance outputs_example_heap (VRef 7) [DataFile]
   \<and> batch_create_materials (VRef 7) 3 outputs_example_heap = Inr ([], outputs_example_heap)
   \<and> \<not> isinstance outputs_example_heap (VRef 2) [Source, Sample, Material]
   \<and> isinstance outputs_example_heap (VRef 2) [Process]
   \<and> batch_create_materials (VRef 2) (- 1) outputs_example_heap = Inr ([], outputs_example_heap)"
proof -
  have a: "\<not> isinstance outputs_example_heap VNone [Source, Sample, Material]" by code_simp
  have b: "\<not> isinstance outputs_example_heap (VRef 7) [Source, Sample, Material]" by code_simp
  have c: "\<not> isinstance outputs_example_heap (VRef 2) [Source, Sample, Material]" by code_simp
  have d: "isinstance outputs_example_heap (VRef 7) [DataFile]"
    "isinstance outputs_example_heap (VRef 2) [Process]" by code_simp+
  show ?thesis
    using batch_create_materials_unsupported[OF a, of 3]
      batch_create_materials_unsupported[OF b, of 3]
      batch_create_materials_unsupported[OF c, of "- 1"] a b c d
    by simp
qed

section \<open>The wiring of replicas\<close>


text \<open>
  Claim C1, evaluated on the prototype chain of the example heap with \<open>n = 2\<close>. Two
  processes are returned. The first is wired as the claim says: its input is the copy
  \<^verbatim>\<open>sample-0\<close> (at 12), its output the copy \<^verbatim>\<open>material-0\<close> (at 16), which derives from that
  sample. The second is not: the window still holds \<^verbatim>\<open>material-0\<close> in its first slot when
  the second replica begins, so the copy \<^verbatim>\<open>sample-1\<close> (at 17) goes to the second slot, and
  \<^verbatim>\<open>process-1\<close> (at 18) gets \<^verbatim>\<open>material-0\<close> as its input and \<^verbatim>\<open>sample-1\<close> as its output;
  \<^verbatim>\<open>sample-1\<close> derives from \<^verbatim>\<open>material-0\<close>, and the copy \<^verbatim>\<open>material-1\<close> (at 21) is left unwired.
\<close>

theorem batch_create_assays_second_replica:
  "batch_create_assays [VRef 0, VRef 3, VRef 4] (Some 2) chain_example_heap
     = Inr ([VRef 13, VRef 18],
         chain_example_heap @
         [Inst Sample [(''_Commentable__comments'', VNone), (''name'', VStr ''sample-0''),
                       (''derives_from'', VNone)],
          Inst Process [(''_Commentable__comments'', VNone), (''name'', VStr ''process-0''),
                        (''inputs'', VRef 14), (''outputs'', VRef 15),
                        (''prev_process'', VNone), (''next_process'', VNone)],
          PList [VRef 12],
          PList [VRef 16],
          Inst Material [(''_Commentable__comments'', VNone), (''name'', VStr ''material-0''),
                         (''derives_from'', VRef 12)],
          Inst Sample [(''_Commentable__comments'', VNone), (''name'', VStr ''sample-1''),
                       (''derives_from'', VRef 16)],
          Inst Process [(''_Commentable__comments'', VNone), (''name'', VStr ''process-1''),
                        (''inputs'', VRef 19), (''outputs'', VRef 20),
                        (''prev_process'', VNone), (''next_process'', VNone)],
          PList [VRef 16],
          PList [VRef 17],
          Inst Material [(''_Commentable__comments'', VNone), (''name'', VStr ''material-1''),
                         (''derives_from'', VNone)]])"
  by code_simp

text \<open>
  Claim C2, evaluated on the example heap with the list of the processes \<^verbatim>\<open>p1\<close> and \<^verbatim>\<open>p2\<close>
  (at 11) between the sample and the material, and \<open>n = 1\<close>. The three slots become filled
  and both copies of the processes (at 14 and 17) are wired with the copy of the sample
  as input and the copy of the material as output, but the sequence that is returned is
  empty.
\<close>

theorem batch_create_assays_process_list:
  "batch_create_assays [VRef 0, VRef 11, VRef 4] (Some 1) chain_example_heap
     = Inr ([],
         chain_example_heap @
         [Inst Sample [(''_Commentable__comments'', VNone), (''name'', VStr ''sample-0''),
                       (''derives_from'', VNone)],
          PList [VRef 14, VRef 17],
          Inst Process [(''_Commentable__comments'', VNone), (''name'', VStr ''p1-0-0''),
                        (''inputs'', VRef 15), (''outputs'', VRef 16),
                        (''prev_process'', VNone), (''next_process'', VNone)],
          PList [VRef 12],
          PList [VRef 20],
          Inst Process [(''_Commentable__comments'', VNone), (''name'', VStr ''p2-0-1''),
                        (''inputs'', VRef 18), (''outputs'', VRef 19),
                        (''prev_process'', VNone), (''next_process'', VNone)],
          PList [VRef 12],
          PList [VRef 20],
          Inst Material [(''_Commentable__comments'', VNone), (''name'', VStr ''material-0''),
                         (''derives_from'', VRef 12)]])"
  by code_simp

section \<open>Prototypes are kept and copies are separate\<close>






end
